theory Spec2Isabelle
  imports Complex_Main "HOL-Library.Sublist" "HOL-Library.AList" "HOL-Library.Log_Nat"
begin

section \<open>Strings\<close>

text \<open>
  A Python \<open>str\<close> is modelled as a \<open>string\<close>, one \<open>char\<close> per code point, so the
  model covers the code points below 256. On that range \<open>\s\<close> of the \<open>re\<close> module and
  \<open>str.strip()\<close> without argument agree on the whitespace characters listed in
  \<open>is_space\<close>, and \<open>\d\<close> matches the ten ASCII digits only.
\<close>

definition is_space :: "char \<Rightarrow> bool" where
  "is_space c = (c \<in> set [CHR 0x09, CHR 0x0A, CHR 0x0B, CHR 0x0C, CHR 0x0D,
     CHR 0x1C, CHR 0x1D, CHR 0x1E, CHR 0x1F, CHR 0x20, CHR 0x85, CHR 0xA0])"

definition is_digit :: "char \<Rightarrow> bool" where
  "is_digit c = (c \<in> set ''0123456789'')"

text \<open>
  Stripping from the right end, and from both ends, the characters that satisfy \<open>P\<close>.
  \<open>s.strip(chars)\<close> strips the characters of \<open>chars\<close>; \<open>s.strip()\<close> strips whitespace.
\<close>

definition rstrip_by :: "('a \<Rightarrow> bool) \<Rightarrow> 'a list \<Rightarrow> 'a list" where
  "rstrip_by P s = rev (dropWhile P (rev s))"

definition strip_by :: "('a \<Rightarrow> bool) \<Rightarrow> 'a list \<Rightarrow> 'a list" where
  "strip_by P s = rstrip_by P (dropWhile P s)"

definition strip_chars :: "string \<Rightarrow> string \<Rightarrow> string" where
  "strip_chars chars s = strip_by (\<lambda>c. c \<in> set chars) s"

definition strip_ws :: "string \<Rightarrow> string" where
  "strip_ws s = strip_by is_space s"

section \<open>Name sanitizer\<close>

subsection \<open>\<open>sanitize_filename\<close>\<close>

text \<open>The character class \<open>[<>:"/\\|?*]\<close> of the substitution.\<close>

definition invalid_chars :: "char list" where
  "invalid_chars = [CHR ''<'', CHR ''>'', CHR '':'', CHR 0x22, CHR ''/'', CHR 0x5C,
     CHR ''|'', CHR ''?'', CHR ''*'']"

text \<open>
  \<^verbatim>\<open>sanitized = re.sub(r'[<>:"/\\|?*]', '_', filename)\<close>: every character of the class
  is one match, replaced by an underscore.
\<close>

definition replace_invalid :: "string \<Rightarrow> string" where
  "replace_invalid s = map (\<lambda>c. if c \<in> set invalid_chars then CHR ''_'' else c) s"

definition sanitize_filename :: "string \<Rightarrow> string" where
  "sanitize_filename filename =
     (let sanitized = replace_invalid filename;
          sanitized = strip_chars ''. '' sanitized
      in if length sanitized > 100 then take 100 sanitized else sanitized)"

subsection \<open>\<open>clean_calibre_title\<close>\<close>

text \<open>
  The two substitutions of \<open>clean_calibre_title\<close> use the patterns
  \<^verbatim>\<open>\s*\(\d+\)\s*$\<close> and \<^verbatim>\<open>\s+\(\d+\)\s*$\<close>. \<open>match_numbering k s\<close> is an attempt of
  the matcher at the start of \<open>s\<close>, with \<open>k = 0\<close> for the first pattern and \<open>k = 1\<close>
  for the second: the greedy whitespace run (at least \<open>k\<close> characters), an opening
  parenthesis, the greedy run of digits (at least one), a closing parenthesis, the greedy
  whitespace run, and the end of the string. Backtracking into a greedy run cannot help,
  since the character that has to follow the run is not of the run's class. \<open>$\<close> also
  matches before a final newline, but the whitespace run before it takes that newline, so
  a match always ends at the end of the string.
\<close>

definition match_numbering :: "nat \<Rightarrow> string \<Rightarrow> bool" where
  "match_numbering k s =
     (k \<le> length (takeWhile is_space s) \<and>
      (case dropWhile is_space s of
         [] \<Rightarrow> False
       | c # r \<Rightarrow> c = CHR ''('' \<and> takeWhile is_digit r \<noteq> [] \<and>
           (case dropWhile is_digit r of
              [] \<Rightarrow> False
            | d # r' \<Rightarrow> d = CHR '')'' \<and> dropWhile is_space r' = [])))"

text \<open>
  \<open>re.sub(pattern, '', s)\<close>: the search tries the start positions from left to right.
  The first match runs to the end of the string and is replaced by the empty string; the
  pattern does not match the empty rest, so there is no second replacement.
\<close>

fun re_sub_numbering :: "nat \<Rightarrow> string \<Rightarrow> string" where
  "re_sub_numbering k [] = []"
| "re_sub_numbering k (c # cs) =
     (if match_numbering k (c # cs) then [] else c # re_sub_numbering k cs)"

definition clean_calibre_title :: "string \<Rightarrow> string" where
  "clean_calibre_title title =
     (if title = [] then title
      else
        (let cleaned = re_sub_numbering 0 title;
             cleaned = re_sub_numbering 1 cleaned
         in strip_ws cleaned))"

text \<open>
  For stating what \<open>clean_calibre_title\<close> does: \<open>has_numbering_suffix k s\<close> says that \<open>s\<close>
  ends with at least \<open>k\<close> whitespace characters, a parenthesized run of one or more
  digits, and optional whitespace. It reads the string from its end.
\<close>

definition has_numbering_suffix :: "nat \<Rightarrow> string \<Rightarrow> bool" where
  "has_numbering_suffix k s =
     (case dropWhile is_space (rev s) of
        [] \<Rightarrow> False
      | c # r \<Rightarrow> c = CHR '')'' \<and> takeWhile is_digit r \<noteq> [] \<and>
          (case dropWhile is_digit r of
             [] \<Rightarrow> False
           | d # r' \<Rightarrow> d = CHR ''('' \<and> k \<le> length (takeWhile is_space r')))"

text \<open>The string made of whitespace \<open>w1\<close>, the digits \<open>ds\<close> in parentheses, and whitespace \<open>w2\<close>.\<close>

definition numbering :: "string \<Rightarrow> string \<Rightarrow> string \<Rightarrow> string" where
  "numbering w1 ds w2 = w1 @ CHR ''('' # ds @ CHR '')'' # w2"

section \<open>Numbers and their formatting\<close>

text \<open>
  A series index is a Python \<open>float\<close>, read from a \<open>REAL\<close> column: a finite double, an
  infinity, or not a number. Every finite double is a rational number, and the code only
  compares, truncates and formats the index, so a finite index is held as a \<open>rat\<close>: all
  three are functions of the exact value.
\<close>

datatype pyfloat = Finite rat | PosInf | NegInf | NaN

text \<open>\<open>str(n)\<close> for a natural number: its decimal digits.\<close>

fun digits10 :: "nat \<Rightarrow> string" where
  "digits10 n =
     (if n < 10 then [''0123456789'' ! n]
      else digits10 (n div 10) @ [''0123456789'' ! (n mod 10)])"

declare digits10.simps [simp del]

definition str_int :: "int \<Rightarrow> string" where
  "str_int i = (if i < 0 then CHR ''-'' # digits10 (nat (- i)) else digits10 (nat i))"

text \<open>\<open>s.zfill(width)\<close>: pad with zeros on the left, after a leading sign.\<close>

definition zfill :: "nat \<Rightarrow> string \<Rightarrow> string" where
  "zfill width s =
     (if width \<le> length s then s
      else
        (case s of
           [] \<Rightarrow> replicate width (CHR ''0'')
         | c # r \<Rightarrow>
             if c = CHR ''+'' \<or> c = CHR ''-''
             then c # replicate (width - length s) (CHR ''0'') @ r
             else replicate (width - length s) (CHR ''0'') @ s))"

text \<open>\<open>int(x)\<close> truncates toward zero.\<close>

definition py_int :: "rat \<Rightarrow> int" where
  "py_int x = (if x < 0 then \<lceil>x\<rceil> else \<lfloor>x\<rfloor>)"

text \<open>Rounding to the nearest integer, a tie to the even one.\<close>

definition round_half_even :: "rat \<Rightarrow> int" where
  "round_half_even x =
     (let f = \<lfloor>x\<rfloor>; d = x - of_int f
      in if d < 1 / 2 then f
         else if 1 / 2 < d then f + 1
         else if even f then f else f + 1)"

text \<open>
  \<open>format(x, '0W.1f')\<close>: the exact value rounded to one decimal (a tie to the even
  digit), the sign of \<open>x\<close>, and zeros between sign and digits up to the minimum width \<open>W\<close>.
  \<open>format(x, '.1f')\<close> is the width \<open>0\<close>.
\<close>

definition format_f1 :: "nat \<Rightarrow> rat \<Rightarrow> string" where
  "format_f1 width x =
     (let n = nat (round_half_even (\<bar>x\<bar> * 10));
          sign = (if x < 0 then ''-'' else '''');
          body = digits10 (n div 10) @ ''.'' @ digits10 (n mod 10)
      in sign @ replicate (width - (length sign + length body)) (CHR ''0'') @ body)"

text \<open>\<open>s.replace('.', '_')\<close>.\<close>

definition replace_dot :: "string \<Rightarrow> string" where
  "replace_dot s = map (\<lambda>c. if c = CHR ''.'' then CHR ''_'' else c) s"

text \<open>
  Binary floating point, for the success rate of the summary: \<open>round_to_double x\<close> is the
  double nearest to \<open>x\<close> (53 significant bits, a tie to the even significand), for values
  in the normal range of doubles. \<open>ilog2 x\<close> is the exponent of the positive rational \<open>x\<close>.
\<close>

definition ilog2 :: "rat \<Rightarrow> int" where
  "ilog2 x =
     (let (a, b) = quotient_of x; k = bitlen a - bitlen b
      in if 2 powi k \<le> x then k else k - 1)"

definition round_to_double :: "rat \<Rightarrow> rat" where
  "round_to_double x =
     (if x = 0 then 0
      else (let e = ilog2 \<bar>x\<bar> - 52
            in of_int (round_half_even (x / 2 powi e)) * 2 powi e))"

section \<open>Paths and the file system\<close>

text \<open>
  A path is the list of its components below the root of the file system: paths are
  absolute, and \<open>..\<close> is a component like any other until the file system walks along
  the path. Paths follow
  the POSIX flavour of \<open>pathlib\<close>: \<open>/\<close> separates components, and empty components and
  \<open>.\<close> are dropped when a string is parsed.
\<close>

type_synonym path = "string list"

text \<open>\<open>s.split(sep)\<close> for a separator of one character.\<close>

fun split_on :: "char \<Rightarrow> string \<Rightarrow> string list" where
  "split_on sep [] = [[]]"
| "split_on sep (c # cs) =
     (if c = sep then [] # split_on sep cs
      else (case split_on sep cs of
              [] \<Rightarrow> [[c]]
            | p # ps \<Rightarrow> (c # p) # ps))"

definition path_parts :: "string \<Rightarrow> path" where
  "path_parts s = filter (\<lambda>p. p \<noteq> [] \<and> p \<noteq> ''.'') (split_on (CHR ''/'') s)"

text \<open>\<open>base / s\<close>: an absolute \<open>s\<close> replaces the base.\<close>

definition joinpath :: "path \<Rightarrow> string \<Rightarrow> path" where
  "joinpath base s =
     (case s of
        [] \<Rightarrow> base
      | c # _ \<Rightarrow> if c = CHR ''/'' then path_parts s else base @ path_parts s)"

text \<open>\<open>p.name\<close>: the last component, empty for the root.\<close>

definition path_name :: "path \<Rightarrow> string" where
  "path_name p = (if p = [] then [] else last p)"

text \<open>
  The suffix of a file name, as \<open>PurePath.suffix\<close> computes it (Python 3.6 to 3.13):
  \<^verbatim>\<open>i = name.rfind('.')\<close>, and the suffix is \<^verbatim>\<open>name[i:]\<close> if \<^verbatim>\<open>0 < i < len(name) - 1\<close>,
  else empty. \<open>after\<close> is the part of the name behind its last dot.
\<close>

definition name_suffix :: "string \<Rightarrow> string" where
  "name_suffix name =
     (let after = rev (takeWhile (\<lambda>c. c \<noteq> CHR ''.'') (rev name))
      in if CHR ''.'' \<in> set name \<and> after \<noteq> [] \<and> Suc (length after) < length name
         then CHR ''.'' # after else [])"

text \<open>\<open>Path(s).suffix\<close> for a string \<open>s\<close>.\<close>

definition str_suffix :: "string \<Rightarrow> string" where
  "str_suffix s = name_suffix (path_name (path_parts s))"

text \<open>\<open>str(p)\<close> for a relative path: the components joined by \<open>/\<close>, and \<open>.\<close> if there is none.\<close>

fun join_parts :: "path \<Rightarrow> string" where
  "join_parts [] = []"
| "join_parts [p] = p"
| "join_parts (p # q # ps) = p @ CHR ''/'' # join_parts (q # ps)"

definition str_relpath :: "path \<Rightarrow> string" where
  "str_relpath p = (if p = [] then ''.'' else join_parts p)"

text \<open>\<open>p.relative_to(base)\<close>: raises \<open>ValueError\<close> (here \<open>None\<close>) unless \<open>base\<close> is a prefix of \<open>p\<close>.\<close>

definition relative_to :: "path \<Rightarrow> path \<Rightarrow> path option" where
  "relative_to p base = (if prefix base p then Some (drop (length base) p) else None)"

text \<open>\<open>s.lower()\<close> on the code points below 256, where it works character by character.\<close>

definition lower_char :: "char \<Rightarrow> char" where
  "lower_char c =
     (let n = (of_char c :: nat)
      in if (65 \<le> n \<and> n \<le> 90) \<or> (192 \<le> n \<and> n \<le> 222 \<and> n \<noteq> 215)
         then char_of (n + 32) else c)"

definition lower :: "string \<Rightarrow> string" where
  "lower s = map lower_char s"

text \<open>\<open>a in b\<close> for strings: \<open>a\<close> occurs in \<open>b\<close> as a contiguous part.\<close>

fun str_contains :: "'a list \<Rightarrow> 'a list \<Rightarrow> bool" where
  "str_contains a [] = (a = [])"
| "str_contains a (c # cs) = (prefix a (c # cs) \<or> str_contains a cs)"

subsection \<open>\<open>str.lower()\<close> beyond the code points below 256\<close>

text \<open>
  Beyond the code points below 256 \<open>str.lower()\<close> is not a map over the characters: the
  capital sigma (U+03A3) becomes the final small sigma (U+03C2) when a cased character
  stands before it and none stands behind it, case-ignorable characters skipped on both
  sides, and the small sigma (U+03C3) otherwise. \<open>ulower\<close> is \<open>str.lower()\<close> on strings
  of code points, for the code points below 256 and the basic Greek letters (U+0391 to
  U+03A9 and U+03B1 to U+03C9); it leaves every other code point as it is, which is not
  what \<open>str.lower()\<close> does there. \<open>cased\<close> and \<open>case_ignorable\<close> are the two character
  properties on the same range.
\<close>

definition greek_capital :: "nat \<Rightarrow> bool" where
  "greek_capital n = (913 \<le> n \<and> n \<le> 937 \<and> n \<noteq> 930)"

definition greek_small :: "nat \<Rightarrow> bool" where
  "greek_small n = (945 \<le> n \<and> n \<le> 969)"

definition cased :: "nat \<Rightarrow> bool" where
  "cased n = ((65 \<le> n \<and> n \<le> 90) \<or> (97 \<le> n \<and> n \<le> 122) \<or> n = 170 \<or> n = 181 \<or> n = 186 \<or>
     (192 \<le> n \<and> n \<le> 255 \<and> n \<noteq> 215 \<and> n \<noteq> 247) \<or> greek_capital n \<or> greek_small n)"

definition case_ignorable :: "nat \<Rightarrow> bool" where
  "case_ignorable n = (n \<in> set [39, 46, 58, 94, 96, 168, 173, 175, 180, 183, 184])"

definition lower_cp :: "nat \<Rightarrow> nat" where
  "lower_cp n =
     (if (65 \<le> n \<and> n \<le> 90) \<or> (192 \<le> n \<and> n \<le> 222 \<and> n \<noteq> 215) \<or> greek_capital n
      then n + 32 else n)"

text \<open>
  \<open>final_sigma before after\<close>: the test for a capital sigma with the code points
  \<open>before\<close> it (the nearest first) and \<open>after\<close> it.
\<close>

definition final_sigma :: "nat list \<Rightarrow> nat list \<Rightarrow> bool" where
  "final_sigma before after =
     (case dropWhile case_ignorable before of
        [] \<Rightarrow> False
      | b # _ \<Rightarrow> cased b \<and>
          (case dropWhile case_ignorable after of
             [] \<Rightarrow> True
           | a # _ \<Rightarrow> \<not> cased a))"

fun lower_from :: "nat list \<Rightarrow> nat list \<Rightarrow> nat list" where
  "lower_from before [] = []"
| "lower_from before (c # cs) =
     (if c = 931 then (if final_sigma before cs then 962 else 963) else lower_cp c)
       # lower_from (c # before) cs"

definition ulower :: "nat list \<Rightarrow> nat list" where
  "ulower s = lower_from [] s"

text \<open>
  The test of the author filter,
  \<^verbatim>\<open>author_filter and author_filter.lower() not in metadata['author'].lower()\<close>,
  with the lowercase function \<open>lc\<close> of the strings it is applied to.
\<close>

definition author_test :: "('c list \<Rightarrow> 'c list) \<Rightarrow> 'c list option \<Rightarrow> 'c list \<Rightarrow> bool" where
  "author_test lc author_filter author =
     (case author_filter of
        None \<Rightarrow> False
      | Some f \<Rightarrow> f \<noteq> [] \<and> \<not> str_contains (lc f) (lc author))"

subsection \<open>The file system\<close>

text \<open>
  The file system is a finite table from the paths without \<open>..\<close> to directories and
  regular files (with their content), without links. \<open>Locked\<close> is a directory that gives
  the process no permission: it can be seen from its parent, but not listed, searched or
  written to. The first entry of a path counts, the root is a directory, and the order
  of the table is the order in which a directory lists its entries.
\<close>

datatype node = Dir | File string | Locked

type_synonym filesystem = "(path \<times> node) list"

text \<open>
  The exceptions of the model. \<open>OSError_ENAMETOOLONG\<close> is the \<open>OSError\<close> with that error
  number, which has no class of its own; the others are the Python classes.
\<close>

datatype error = FileExistsError | NotADirectoryError | FileNotFoundError | IsADirectoryError
  | PermissionError | OSError_ENAMETOOLONG | SameFileError | ValueError | OverflowError
  | ZeroDivisionError

definition node_at :: "filesystem \<Rightarrow> path \<Rightarrow> node option" where
  "node_at files q = (if q = [] then Some Dir else map_of files q)"

text \<open>
  The limits of Linux on the bytes of one component and of a whole path. File names are
  encoded in UTF-8: one byte for a code point below 128, two for the others below 256.
\<close>

definition name_max :: nat where
  "name_max = 255"

definition path_max :: nat where
  "path_max = 4096"

definition utf8_len :: "string \<Rightarrow> nat" where
  "utf8_len s = length s + length (filter (\<lambda>c. 128 \<le> (of_char c :: nat)) s)"

text \<open>\<open>str(p)\<close> for an absolute path.\<close>

definition str_path :: "path \<Rightarrow> string" where
  "str_path p = CHR ''/'' # join_parts p"

text \<open>
  The walk of the operating system along a path. \<open>walk files cur cs\<close> stands at the
  directory \<open>cur\<close> (a path without \<open>..\<close>) and has the components \<open>cs\<close> to go: the place
  it stands at has to be a directory that may be searched, \<open>..\<close> leads to the parent
  (the root is its own parent), and any other component leads one level down, whether an
  entry of that name exists or not; the next step, or the caller, looks at what is there.
\<close>

fun walk :: "filesystem \<Rightarrow> path \<Rightarrow> path \<Rightarrow> error + path" where
  "walk files cur [] = Inr cur"
| "walk files cur (c # cs) =
     (case node_at files cur of
        None \<Rightarrow> Inl FileNotFoundError
      | Some (File _) \<Rightarrow> Inl NotADirectoryError
      | Some Locked \<Rightarrow> Inl PermissionError
      | Some Dir \<Rightarrow>
          if c = ''..'' then walk files (butlast cur) cs
          else if name_max < utf8_len c then Inl OSError_ENAMETOOLONG
          else walk files (cur @ [c]) cs)"

text \<open>
  What a system call does with a path before it looks at the entry: Python refuses a
  NUL character with \<open>ValueError\<close>, the kernel refuses a path of \<open>path_max\<close> bytes or
  more, and then walks. The result is the place of the entry in the table.
\<close>

definition resolve :: "filesystem \<Rightarrow> path \<Rightarrow> error + path" where
  "resolve files p =
     (if CHR 0x00 \<in> set (concat p) then Inl ValueError
      else if path_max \<le> utf8_len (str_path p) then Inl OSError_ENAMETOOLONG
      else walk files [] p)"

text \<open>\<open>os.stat(p)\<close>, as far as the kind of the entry goes.\<close>

definition stat :: "filesystem \<Rightarrow> path \<Rightarrow> error + node" where
  "stat files p =
     (case resolve files p of
        Inl e \<Rightarrow> Inl e
      | Inr q \<Rightarrow> (case node_at files q of None \<Rightarrow> Inl FileNotFoundError | Some n \<Rightarrow> Inr n))"

text \<open>
  \<open>p.exists()\<close>, \<open>p.is_dir()\<close> and \<open>p.is_file()\<close> of \<open>pathlib\<close> (Python 3.8 to 3.12) call
  \<open>stat\<close>. They answer \<open>False\<close> when it raises \<open>FileNotFoundError\<close>,
  \<open>NotADirectoryError\<close> or \<open>ValueError\<close>, and let every other exception pass.
\<close>

definition ignored_error :: "error \<Rightarrow> bool" where
  "ignored_error e = (e = FileNotFoundError \<or> e = NotADirectoryError \<or> e = ValueError)"

definition probe :: "(node \<Rightarrow> bool) \<Rightarrow> filesystem \<Rightarrow> path \<Rightarrow> error + bool" where
  "probe P files p =
     (case stat files p of
        Inl e \<Rightarrow> if ignored_error e then Inr False else Inl e
      | Inr n \<Rightarrow> Inr (P n))"

definition is_dir_node :: "node \<Rightarrow> bool" where
  "is_dir_node n = (case n of File _ \<Rightarrow> False | _ \<Rightarrow> True)"

definition path_exists :: "filesystem \<Rightarrow> path \<Rightarrow> error + bool" where
  "path_exists files p = probe (\<lambda>n. True) files p"

definition is_dir :: "filesystem \<Rightarrow> path \<Rightarrow> error + bool" where
  "is_dir files p = probe is_dir_node files p"

definition is_file :: "filesystem \<Rightarrow> path \<Rightarrow> error + bool" where
  "is_file files p = probe (\<lambda>n. \<not> is_dir_node n) files p"

text \<open>\<open>os.path.isdir(p)\<close> answers \<open>False\<close> whenever \<open>stat\<close> raises.\<close>

definition os_path_isdir :: "filesystem \<Rightarrow> path \<Rightarrow> bool" where
  "os_path_isdir files p = (case stat files p of Inl e \<Rightarrow> False | Inr n \<Rightarrow> is_dir_node n)"

text \<open>
  \<open>p.iterdir()\<close>: the entries directly below the directory \<open>p\<close>, each as \<open>p\<close> with the
  name of the entry appended.
\<close>

definition iterdir :: "filesystem \<Rightarrow> path \<Rightarrow> error + path list" where
  "iterdir files p =
     (case resolve files p of
        Inl e \<Rightarrow> Inl e
      | Inr q \<Rightarrow>
          (case node_at files q of
             None \<Rightarrow> Inl FileNotFoundError
           | Some (File _) \<Rightarrow> Inl NotADirectoryError
           | Some Locked \<Rightarrow> Inl PermissionError
           | Some Dir \<Rightarrow>
               Inr (map (\<lambda>r. p @ [last r])
                     (remdups (filter (\<lambda>r. r \<noteq> [] \<and> butlast r = q) (map fst files))))))"

text \<open>
  \<open>p.mkdir(parents=True, exist_ok=True)\<close> creates the missing directories from the top
  down; a regular file in the way raises, and so does a directory on the way that may
  not be searched or written to. \<open>mkdir_from files cur cs\<close> stands at the directory
  \<open>cur\<close> and has the components \<open>cs\<close> to go. An exception comes with the file system it
  leaves behind: the directories that were created before it stay.
\<close>

fun mkdir_from :: "filesystem \<Rightarrow> path \<Rightarrow> path \<Rightarrow> (error \<times> filesystem) + filesystem" where
  "mkdir_from files cur [] = Inr files"
| "mkdir_from files cur (c # cs) =
     (if node_at files cur = Some Locked then Inl (PermissionError, files)
      else if c = ''..'' then mkdir_from files (butlast cur) cs
      else if name_max < utf8_len c then Inl (OSError_ENAMETOOLONG, files)
      else
        (case node_at files (cur @ [c]) of
           Some (File _) \<Rightarrow> Inl (if cs = [] then FileExistsError else NotADirectoryError, files)
         | None \<Rightarrow> mkdir_from (files @ [(cur @ [c], Dir)]) (cur @ [c]) cs
         | _ \<Rightarrow> mkdir_from files (cur @ [c]) cs))"

definition mkdir :: "filesystem \<Rightarrow> path \<Rightarrow> (error \<times> filesystem) + filesystem" where
  "mkdir files p =
     (if CHR 0x00 \<in> set (concat p) then Inl (ValueError, files)
      else if path_max \<le> utf8_len (str_path p) then Inl (OSError_ENAMETOOLONG, files)
      else mkdir_from files [] p)"

text \<open>\<open>open(p, 'rb')\<close> and reading to the end: the content of a regular file.\<close>

definition read_file :: "filesystem \<Rightarrow> path \<Rightarrow> error + string" where
  "read_file files p =
     (case stat files p of
        Inl e \<Rightarrow> Inl e
      | Inr Dir \<Rightarrow> Inl IsADirectoryError
      | Inr Locked \<Rightarrow> Inl PermissionError
      | Inr (File content) \<Rightarrow> Inr content)"

text \<open>
  \<open>open(p, 'wb')\<close> and writing \<open>content\<close>: the file is created in its directory, which
  the walk has found to be one, or replaced.
\<close>

definition write_file :: "filesystem \<Rightarrow> path \<Rightarrow> string \<Rightarrow> error + filesystem" where
  "write_file files p content =
     (case resolve files p of
        Inl e \<Rightarrow> Inl e
      | Inr q \<Rightarrow>
          (case node_at files q of
             Some Dir \<Rightarrow> Inl IsADirectoryError
           | Some Locked \<Rightarrow> Inl IsADirectoryError
           | _ \<Rightarrow> Inr (AList.update q (File content) files)))"

text \<open>
  \<open>shutil.copy2(src, dst)\<close>: the content of the regular file \<open>src\<close> is written to \<open>dst\<close>
  (into \<open>dst\<close>, under the name of \<open>src\<close>, if \<open>dst\<close> is a directory). Source and
  destination are the same file when both exist at the same place.
\<close>

definition same_file :: "filesystem \<Rightarrow> path \<Rightarrow> path \<Rightarrow> bool" where
  "same_file files a b =
     (case (stat files a, stat files b) of
        (Inr _, Inr _) \<Rightarrow> resolve files a = resolve files b
      | _ \<Rightarrow> False)"

definition copy2 :: "filesystem \<Rightarrow> path \<Rightarrow> path \<Rightarrow> error + filesystem" where
  "copy2 files src dst =
     (let dst = (if os_path_isdir files dst then dst @ [path_name src] else dst)
      in if same_file files src dst then Inl SameFileError
         else (case read_file files src of
                 Inl e \<Rightarrow> Inl e
               | Inr content \<Rightarrow> write_file files dst content))"

section \<open>Catalog records\<close>

text \<open>
  The metadata of one book, as \<open>load_calibre_metadata\<close> stores it in \<open>metadata_cache\<close>
  (the dictionary keys \<open>id\<close>, \<open>title\<close>, \<open>author\<close>, \<open>series\<close>, \<open>series_index\<close>, \<open>formats\<close>).
  \<open>None\<close> is the SQL \<open>NULL\<close> of a left join without partner.
\<close>

record metadata =
  m_id :: int
  m_title :: string
  m_author :: string
  m_series :: "string option"
  m_series_index :: "pyfloat option"
  m_formats :: "string list"

text \<open>
  Python truth values: \<open>None\<close>, the empty string and zero are false; the infinities and
  not-a-number are true.
\<close>

definition truthy_str :: "string option \<Rightarrow> bool" where
  "truthy_str v = (case v of None \<Rightarrow> False | Some s \<Rightarrow> s \<noteq> [])"

definition truthy_num :: "pyfloat option \<Rightarrow> bool" where
  "truthy_num v = (case v of None \<Rightarrow> False | Some (Finite x) \<Rightarrow> x \<noteq> 0 | Some _ \<Rightarrow> True)"

section \<open>Path resolver\<close>

definition get_series_folder_name :: "metadata \<Rightarrow> string" where
  "get_series_folder_name metadata =
     (let author = m_author metadata; series = m_series metadata
      in case series of
           None \<Rightarrow> sanitize_filename author
         | Some s \<Rightarrow>
             if s \<noteq> [] then sanitize_filename (author @ '' - '' @ s)
             else sanitize_filename author)"

text \<open>The volume number of \<open>get_file_name\<close>, for a finite index that passed the truth test.\<close>

definition volume_num :: "rat \<Rightarrow> string" where
  "volume_num series_index =
     (if series_index = of_int (py_int series_index)
      then zfill 2 (str_int (py_int series_index))
      else replace_dot (format_f1 5 series_index))"

text \<open>
  \<open>get_file_name\<close>. The first thing the series branch does with the index is
  \<open>int(series_index)\<close>, which raises \<open>OverflowError\<close> for an infinity and \<open>ValueError\<close> for
  not-a-number.
\<close>

definition get_file_name :: "metadata \<Rightarrow> string \<Rightarrow> error + string" where
  "get_file_name metadata original_filename =
     (let title = m_title metadata;
          series_index = m_series_index metadata;
          series = m_series metadata;
          clean_title = clean_calibre_title title;
          extension = str_suffix original_filename
      in if truthy_str series \<and> truthy_num series_index
         then (case the series_index of
                 Finite x \<Rightarrow>
                   Inr (sanitize_filename (''Volume '' @ volume_num x @ '' - '' @ clean_title) @ extension)
               | PosInf \<Rightarrow> Inl OverflowError
               | NegInf \<Rightarrow> Inl OverflowError
               | NaN \<Rightarrow> Inl ValueError)
         else Inr (sanitize_filename clean_title @ extension))"

section \<open>Migration engine\<close>

subsection \<open>State\<close>

record stats =
  total_books :: int
  migrated_books :: int
  skipped_books :: int
  errors :: int

datatype level = DEBUG | INFO | WARNING | ERROR

text \<open>
  A log record is a level and a message. A message that is built from paths, exceptions
  or numbers is kept as the format string's name with its arguments; the lines of the
  summary are kept as the text they render to.
\<close>

datatype message =
    Starting_migration path path
  | Dry_run_is bool
  | Calibre_path_missing path
  | Calibre_path_not_dir path
  | No_metadata_db path
  | Loaded_metadata nat
  | Error_loading_metadata
  | Failed_to_load_metadata
  | Book_path_missing path
  | No_metadata_found path
  | No_supported_files path
  | Migrating string string "(string \<times> pyfloat option) option" string
  | File_already_exists path
  | Copied path path
  | Error_migrating path error
  | Would_create path
  | Text string

text \<open>
  One row of the query: id, title, path, series index, author, series, formats. The
  columns have the types of Calibre's schema.
\<close>

type_synonym row =
  "int \<times> string \<times> string \<times> pyfloat option \<times> string option \<times> string option \<times> string option"

text \<open>
  The migrator object (\<open>calibre_path\<close>, \<open>komga_path\<close>, \<open>dry_run\<close>, \<open>stats\<close>,
  \<open>metadata_cache\<close>) together with its environment: the file system \<open>fs\<close>, the rows
  \<open>db\<close> that the query on \<open>metadata.db\<close> returns (\<open>None\<close> if connecting or querying
  raises), and the log records \<open>logged\<close> so far. \<open>metadata_cache\<close> is a dictionary in
  insertion order. The two paths are absolute: a relative path stands for the working
  directory followed by it.
\<close>

record state =
  calibre_path :: path
  komga_path :: path
  dry_run :: bool
  stats :: stats
  metadata_cache :: "(string \<times> metadata) list"
  fs :: filesystem
  db :: "row list option"
  logged :: "(level \<times> message) list"

definition init :: "path \<Rightarrow> path \<Rightarrow> bool \<Rightarrow> filesystem \<Rightarrow> row list option \<Rightarrow> state" where
  "init calibre komga dry files rows =
     \<lparr>calibre_path = calibre, komga_path = komga, dry_run = dry,
      stats = \<lparr>total_books = 0, migrated_books = 0, skipped_books = 0, errors = 0\<rparr>,
      metadata_cache = [], fs = files, db = rows, logged = []\<rparr>"

definition supported_formats :: "string list" where
  "supported_formats = [''.epub'', ''.kepub'']"

definition metadata_db_path :: "state \<Rightarrow> path" where
  "metadata_db_path st = joinpath (calibre_path st) ''metadata.db''"

definition logmsg :: "level \<Rightarrow> message \<Rightarrow> state \<Rightarrow> state" where
  "logmsg lvl m st = st\<lparr>logged := logged st @ [(lvl, m)]\<rparr>"

definition count_total :: "state \<Rightarrow> state" where
  "count_total st = st\<lparr>stats := (stats st)\<lparr>total_books := total_books (stats st) + 1\<rparr>\<rparr>"

definition count_migrated :: "state \<Rightarrow> state" where
  "count_migrated st = st\<lparr>stats := (stats st)\<lparr>migrated_books := migrated_books (stats st) + 1\<rparr>\<rparr>"

definition count_skipped :: "state \<Rightarrow> state" where
  "count_skipped st = st\<lparr>stats := (stats st)\<lparr>skipped_books := skipped_books (stats st) + 1\<rparr>\<rparr>"

definition count_error :: "state \<Rightarrow> state" where
  "count_error st = st\<lparr>stats := (stats st)\<lparr>errors := errors (stats st) + 1\<rparr>\<rparr>"

subsection \<open>\<open>validate_paths\<close> and \<open>load_calibre_metadata\<close>\<close>

text \<open>
  In the methods of the engine \<open>Inl (e, st)\<close> is the exception \<open>e\<close> leaving the method,
  with the state it leaves behind. \<open>validate_paths\<close> guards none of its calls.
\<close>

definition validate_paths :: "state \<Rightarrow> (error \<times> state) + (bool \<times> state)" where
  "validate_paths st =
     (case path_exists (fs st) (calibre_path st) of
        Inl e \<Rightarrow> Inl (e, st)
      | Inr ex \<Rightarrow>
          if \<not> ex then Inr (False, logmsg ERROR (Calibre_path_missing (calibre_path st)) st)
          else
            (case is_dir (fs st) (calibre_path st) of
               Inl e \<Rightarrow> Inl (e, st)
             | Inr d \<Rightarrow>
                 if \<not> d then Inr (False, logmsg ERROR (Calibre_path_not_dir (calibre_path st)) st)
                 else
                   (case path_exists (fs st) (metadata_db_path st) of
                      Inl e \<Rightarrow> Inl (e, st)
                    | Inr m \<Rightarrow>
                        if \<not> m then Inr (False, logmsg ERROR (No_metadata_db (calibre_path st)) st)
                        else if \<not> dry_run st
                        then (case mkdir (fs st) (komga_path st) of
                                Inl (e, files) \<Rightarrow> Inl (e, st\<lparr>fs := files\<rparr>)
                              | Inr files \<Rightarrow> Inr (True, st\<lparr>fs := files\<rparr>))
                        else Inr (True, st))))"

text \<open>
  The body of the loop over the rows: the first of several authors, \<open>Unknown Author\<close>
  for none, and the dictionary assignment \<open>metadata_cache[path] = ...\<close>, which keeps
  the place of a key that is already there.
\<close>

definition load_row :: "(string \<times> metadata) list \<Rightarrow> row \<Rightarrow> (string \<times> metadata) list" where
  "load_row cache r =
     (case r of (book_id, title, path, series_index, author_name, series_name, formats) \<Rightarrow>
        (let author_name =
               (if truthy_str author_name
                then Some (strip_ws (hd (split_on (CHR '','') (the author_name))))
                else author_name)
         in AList.update path
              \<lparr>m_id = book_id, m_title = title,
               m_author = (if truthy_str author_name then the author_name else ''Unknown Author''),
               m_series = series_name, m_series_index = series_index,
               m_formats = (if truthy_str formats then split_on (CHR '','') (the formats) else [])\<rparr>
              cache))"

definition load_calibre_metadata :: "state \<Rightarrow> bool \<times> state" where
  "load_calibre_metadata st =
     (case db st of
        None \<Rightarrow> (False, logmsg ERROR Error_loading_metadata st)
      | Some results \<Rightarrow>
          (let st' = st\<lparr>metadata_cache := foldl load_row (metadata_cache st) results\<rparr>
           in (True, logmsg INFO (Loaded_metadata (length (metadata_cache st'))) st')))"

subsection \<open>\<open>migrate_book\<close>\<close>

definition get_book_metadata :: "state \<Rightarrow> path \<Rightarrow> metadata option" where
  "get_book_metadata st book_path =
     (case relative_to book_path (calibre_path st) of
        None \<Rightarrow> None
      | Some relative_path \<Rightarrow>
          (let path_key = map (\<lambda>c. if c = CHR 0x5C then CHR ''/'' else c) (str_relpath relative_path)
           in map_of (metadata_cache st) path_key))"

text \<open>
  The loop of \<open>find_ebook_files\<close> over the entries of the directory; \<open>is_file\<close> is called
  on each of them, and the suffix is looked at only if it answers \<open>True\<close>.
\<close>

fun select_ebooks :: "filesystem \<Rightarrow> path list \<Rightarrow> error + path list" where
  "select_ebooks files [] = Inr []"
| "select_ebooks files (file_path # rest) =
     (case is_file files file_path of
        Inl e \<Rightarrow> Inl e
      | Inr b \<Rightarrow>
          (case select_ebooks files rest of
             Inl e \<Rightarrow> Inl e
           | Inr found \<Rightarrow>
               Inr (if b \<and> lower (name_suffix (path_name file_path)) \<in> set supported_formats
                    then file_path # found else found)))"

definition find_ebook_files :: "filesystem \<Rightarrow> path \<Rightarrow> error + path list" where
  "find_ebook_files files book_path =
     (case iterdir files book_path of
        Inl e \<Rightarrow> Inl e
      | Inr entries \<Rightarrow> select_ebooks files entries)"

text \<open>
  The loop of the \<open>try\<close> block. An exception of \<open>get_file_name\<close>, \<open>exists\<close> or \<open>copy2\<close>
  ends it: what was copied and logged before stays.
\<close>

fun copy_files :: "metadata \<Rightarrow> path \<Rightarrow> path list \<Rightarrow> state \<Rightarrow> (error \<times> state) + state" where
  "copy_files metadata series_path [] st = Inr st"
| "copy_files metadata series_path (ebook_file # rest) st =
     (case get_file_name metadata (path_name ebook_file) of
        Inl e \<Rightarrow> Inl (e, st)
      | Inr new_filename \<Rightarrow>
          (let dest_file = joinpath series_path new_filename
           in case path_exists (fs st) dest_file of
                Inl e \<Rightarrow> Inl (e, st)
              | Inr ex \<Rightarrow>
                  if ex
                  then copy_files metadata series_path rest
                         (logmsg WARNING (File_already_exists dest_file) st)
                  else (case copy2 (fs st) ebook_file dest_file of
                          Inl e \<Rightarrow> Inl (e, st)
                        | Inr files \<Rightarrow>
                            copy_files metadata series_path rest
                              (logmsg DEBUG (Copied ebook_file dest_file) (st\<lparr>fs := files\<rparr>)))))"

text \<open>The loop of the dry run, which stands in no \<open>try\<close> block.\<close>

fun would_create :: "metadata \<Rightarrow> path \<Rightarrow> path list \<Rightarrow> state \<Rightarrow> (error \<times> state) + state" where
  "would_create metadata series_path [] st = Inr st"
| "would_create metadata series_path (ebook_file # rest) st =
     (case get_file_name metadata (path_name ebook_file) of
        Inl e \<Rightarrow> Inl (e, st)
      | Inr new_filename \<Rightarrow>
          would_create metadata series_path rest
            (logmsg INFO (Would_create (joinpath series_path new_filename)) st))"

definition series_info :: "metadata \<Rightarrow> (string \<times> pyfloat option) option" where
  "series_info metadata =
     (if truthy_str (m_series metadata)
      then Some (the (m_series metadata),
                 if truthy_num (m_series_index metadata) then m_series_index metadata else None)
      else None)"

text \<open>
  \<open>migrate_book\<close>. Listing the directory is not guarded, and neither is the loop of the
  dry run; the \<open>try\<close> block of the other branch turns every exception into a counted error.
\<close>

definition migrate_book :: "path \<Rightarrow> state \<Rightarrow> (error \<times> state) + (bool \<times> state)" where
  "migrate_book book_path st =
     (case get_book_metadata st book_path of
        None \<Rightarrow> Inr (False, count_skipped (logmsg WARNING (No_metadata_found book_path) st))
      | Some metadata \<Rightarrow>
          (case find_ebook_files (fs st) book_path of
             Inl e \<Rightarrow> Inl (e, st)
           | Inr ebook_files \<Rightarrow>
               if ebook_files = []
               then Inr (False, count_skipped (logmsg WARNING (No_supported_files book_path) st))
               else
                 (let series_folder = get_series_folder_name metadata;
                      series_path = joinpath (komga_path st) series_folder;
                      st1 = logmsg INFO (Migrating (m_author metadata) (m_title metadata)
                              (series_info metadata) series_folder) st
                  in if \<not> dry_run st
                     then
                       (case (case mkdir (fs st1) series_path of
                                Inl (e, files) \<Rightarrow> Inl (e, st1\<lparr>fs := files\<rparr>)
                              | Inr files \<Rightarrow>
                                  copy_files metadata series_path ebook_files (st1\<lparr>fs := files\<rparr>)) of
                          Inr st2 \<Rightarrow> Inr (True, count_migrated st2)
                        | Inl (e, st2) \<Rightarrow>
                            Inr (False, count_error (logmsg ERROR (Error_migrating book_path e) st2)))
                     else
                       (case would_create metadata series_path ebook_files st1 of
                          Inl (e, st2) \<Rightarrow> Inl (e, st2)
                        | Inr st2 \<Rightarrow> Inr (True, count_migrated st2)))))"

subsection \<open>\<open>print_summary\<close> and \<open>migrate_library\<close>\<close>

text \<open>\<open>a / b\<close> on integers: the nearest double of the quotient, \<open>ZeroDivisionError\<close> for \<open>b = 0\<close>.\<close>

definition py_truediv :: "int \<Rightarrow> int \<Rightarrow> error + rat" where
  "py_truediv a b = (if b = 0 then Inl ZeroDivisionError else Inr (round_to_double (of_int a / of_int b)))"

definition summary_lines :: "stats \<Rightarrow> (level \<times> message) list" where
  "summary_lines s =
     [(INFO, Text ''Migration Summary:''),
      (INFO, Text (''  Total books found: '' @ str_int (total_books s))),
      (INFO, Text (''  Books migrated: '' @ str_int (migrated_books s))),
      (INFO, Text (''  Books skipped: '' @ str_int (skipped_books s))),
      (INFO, Text (''  Errors: '' @ str_int (errors s)))]"

definition print_summary :: "state \<Rightarrow> error + state" where
  "print_summary st =
     (let st1 = st\<lparr>logged := logged st @ summary_lines (stats st)\<rparr>
      in if total_books (stats st) > 0
         then (case py_truediv (migrated_books (stats st)) (total_books (stats st)) of
                 Inl e \<Rightarrow> Inl e
               | Inr q \<Rightarrow>
                   (let success_rate = round_to_double (q * 100)
                    in Inr (logmsg INFO (Text (''  Success rate: '' @ format_f1 0 success_rate @ ''%'')) st1)))
         else Inr st1)"

text \<open>The author filter of the loop, on the strings of the model.\<close>

definition filtered_out :: "string option \<Rightarrow> metadata \<Rightarrow> bool" where
  "filtered_out author_filter metadata = author_test lower author_filter (m_author metadata)"

text \<open>
  The loop over \<open>metadata_cache.items()\<close>. Neither the two probes of the book's directory
  nor \<open>migrate_book\<close> are guarded: an exception of theirs ends the loop and leaves
  \<open>migrate_library\<close>. \<open>is_dir\<close> is called only if \<open>exists\<close> answered \<open>True\<close>.
\<close>

fun process_books :: "string option \<Rightarrow> (string \<times> metadata) list \<Rightarrow> state \<Rightarrow> (error \<times> state) + state" where
  "process_books author_filter [] st = Inr st"
| "process_books author_filter ((path_key, metadata) # rest) st =
     (let book_path = joinpath (calibre_path st) path_key
      in case path_exists (fs st) book_path of
           Inl e \<Rightarrow> Inl (e, st)
         | Inr ex \<Rightarrow>
             (case (if ex then is_dir (fs st) book_path else Inr False) of
                Inl e \<Rightarrow> Inl (e, st)
              | Inr d \<Rightarrow>
                  if \<not> d
                  then process_books author_filter rest (logmsg WARNING (Book_path_missing book_path) st)
                  else if filtered_out author_filter metadata
                  then process_books author_filter rest st
                  else (case migrate_book book_path (count_total st) of
                          Inl (e, st') \<Rightarrow> Inl (e, st')
                        | Inr (_, st') \<Rightarrow> process_books author_filter rest st')))"

definition migrate_library :: "string option \<Rightarrow> state \<Rightarrow> (error \<times> state) + state" where
  "migrate_library author_filter st =
     (let st = logmsg INFO (Starting_migration (calibre_path st) (komga_path st)) st;
          st = logmsg INFO (Dry_run_is (dry_run st)) st
      in case validate_paths st of
           Inl (e, st) \<Rightarrow> Inl (e, st)
         | Inr (ok, st) \<Rightarrow>
             if \<not> ok then Inr st
             else (case load_calibre_metadata st of
                     (ok, st) \<Rightarrow>
                       if \<not> ok then Inr (logmsg ERROR Failed_to_load_metadata st)
                       else (case process_books author_filter (metadata_cache st) st of
                               Inl (e, st) \<Rightarrow> Inl (e, st)
                             | Inr st \<Rightarrow>
                                 (case print_summary st of
                                    Inl e \<Rightarrow> Inl (e, st)
                                  | Inr st \<Rightarrow> Inr st))))"

section \<open>Predicates for the properties of the engine\<close>

text \<open>Two states with the same paths, mode, catalog and cache: what no step of a run changes.\<close>

definition same_object :: "state \<Rightarrow> state \<Rightarrow> bool" where
  "same_object s t \<longleftrightarrow> calibre_path s = calibre_path t \<and> komga_path s = komga_path t \<and>
     dry_run s = dry_run t \<and> metadata_cache s = metadata_cache t \<and> db s = db t"

text \<open>The outcomes of one book: exactly one of the three outcome counters goes up by one.\<close>

definition one_outcome :: "stats \<Rightarrow> stats \<Rightarrow> bool" where
  "one_outcome s s' \<longleftrightarrow>
     s' = s\<lparr>migrated_books := migrated_books s + 1\<rparr> \<or>
     s' = s\<lparr>skipped_books := skipped_books s + 1\<rparr> \<or>
     s' = s\<lparr>errors := errors s + 1\<rparr>"

text \<open>The counters partition the counted books.\<close>

definition counters_partition :: "stats \<Rightarrow> bool" where
  "counters_partition s \<longleftrightarrow> total_books s = migrated_books s + skipped_books s + errors s"

text \<open>One counted book without outcome: what an exception of \<open>migrate_book\<close> leaves.\<close>

definition one_uncounted :: "stats \<Rightarrow> bool" where
  "one_uncounted s \<longleftrightarrow> total_books s = migrated_books s + skipped_books s + errors s + 1"

text \<open>Two states that differ at most in their log.\<close>

definition log_equiv :: "state \<Rightarrow> state \<Rightarrow> bool" where
  "log_equiv s t \<longleftrightarrow> same_object s t \<and> stats s = stats t \<and> fs s = fs t"

text \<open>
  Two runs that end the same way, a return or the same exception, in states that differ
  at most in their log.
\<close>

definition same_end :: "(error \<times> state) + state \<Rightarrow> (error \<times> state) + state \<Rightarrow> bool" where
  "same_end r r' =
     (case (r, r') of
        (Inr s, Inr s') \<Rightarrow> log_equiv s s'
      | (Inl (e, s), Inl (e', s')) \<Rightarrow> e = e' \<and> log_equiv s s'
      | _ \<Rightarrow> False)"

text \<open>The state in which a run ends, by return or by exception.\<close>

definition end_state :: "(error \<times> state) + state \<Rightarrow> state" where
  "end_state r = (case r of Inl (e, s) \<Rightarrow> s | Inr s \<Rightarrow> s)"

text \<open>The books that pass the author filter.\<close>

definition passes_filter :: "string option \<Rightarrow> string \<times> metadata \<Rightarrow> bool" where
  "passes_filter af item = (\<not> filtered_out af (snd item))"

text \<open>The paths of the \<open>[DRY RUN] Would create\<close> records of a log.\<close>

fun would_create_paths :: "(level \<times> message) list \<Rightarrow> path list" where
  "would_create_paths [] = []"
| "would_create_paths ((l, Would_create p) # lg) = p # would_create_paths lg"
| "would_create_paths (_ # lg) = would_create_paths lg"

text \<open>The destinations of the \<open>Copied\<close> records of a log: the files a run has created.\<close>

fun copied_paths :: "(level \<times> message) list \<Rightarrow> path list" where
  "copied_paths [] = []"
| "copied_paths ((l, Copied src dst) # lg) = dst # copied_paths lg"
| "copied_paths (_ # lg) = copied_paths lg"

text \<open>The paths of the \<open>File already exists, skipping\<close> records of a log.\<close>

fun already_exists_paths :: "(level \<times> message) list \<Rightarrow> path list" where
  "already_exists_paths [] = []"
| "already_exists_paths ((l, File_already_exists p) # lg) = p # already_exists_paths lg"
| "already_exists_paths (_ # lg) = already_exists_paths lg"

section \<open>Example data\<close>

text \<open>The record of the spec's example, with the series index left open.\<close>

definition foundation :: "pyfloat option \<Rightarrow> metadata" where
  "foundation idx = \<lparr>m_id = 84, m_title = ''Foundation (84)'', m_author = ''Isaac Asimov'',
     m_series = Some ''Foundation'', m_series_index = idx, m_formats = [''EPUB'']\<rparr>"

text \<open>
  A library of two books by different authors, each with one ebook file, and a catalog
  with a third row, without author, whose directory does not exist. The query orders the
  rows by author, and \<open>NULL\<close> comes first.
\<close>

definition example_fs :: filesystem where
  "example_fs =
     [([''lib''], Dir), ([''lib'', ''metadata.db''], File ''''),
      ([''lib'', ''Frank Herbert''], Dir), ([''lib'', ''Frank Herbert'', ''Dune (3)''], Dir),
      ([''lib'', ''Frank Herbert'', ''Dune (3)'', ''Dune - Frank Herbert.epub''], File ''D''),
      ([''lib'', ''Isaac Asimov''], Dir), ([''lib'', ''Isaac Asimov'', ''Foundation (84)''], Dir),
      ([''lib'', ''Isaac Asimov'', ''Foundation (84)'', ''Foundation - Isaac Asimov.epub''], File ''F'')]"

definition rows_with :: "pyfloat \<Rightarrow> row list" where
  "rows_with idx =
     [(99, ''Ghost'', ''Nobody/Ghost (99)'', Some (Finite 1), None, None, None),
      (3, ''Dune'', ''Frank Herbert/Dune (3)'', Some (Finite 1), Some ''Frank Herbert'', None, Some ''EPUB''),
      (84, ''Foundation (84)'', ''Isaac Asimov/Foundation (84)'', Some idx, Some ''Isaac Asimov'',
         Some ''Foundation'', Some ''EPUB'')]"

definition example_rows :: "row list" where
  "example_rows = rows_with (Finite 7)"

text \<open>The records of the three rows.\<close>

definition ghost :: metadata where
  "ghost = \<lparr>m_id = 99, m_title = ''Ghost'', m_author = ''Unknown Author'', m_series = None,
     m_series_index = Some (Finite 1), m_formats = []\<rparr>"

definition dune :: metadata where
  "dune = \<lparr>m_id = 3, m_title = ''Dune'', m_author = ''Frank Herbert'', m_series = None,
     m_series_index = Some (Finite 1), m_formats = [''EPUB'']\<rparr>"

text \<open>The cache that \<open>load_calibre_metadata\<close> builds from the rows, and the state after loading.\<close>

definition example_cache :: "(string \<times> metadata) list" where
  "example_cache =
     [(''Nobody/Ghost (99)'', ghost),
      (''Frank Herbert/Dune (3)'', dune),
      (''Isaac Asimov/Foundation (84)'', foundation (Some (Finite 7)))]"

definition example_state :: "bool \<Rightarrow> state" where
  "example_state dry =
     (init [''lib''] [''out''] dry example_fs (Some example_rows))\<lparr>metadata_cache := example_cache\<rparr>"

text \<open>The example library after a first migration of the book by Frank Herbert.\<close>

definition example_fs_rerun :: filesystem where
  "example_fs_rerun = example_fs @
     [([''out''], Dir), ([''out'', ''Frank Herbert''], Dir),
      ([''out'', ''Frank Herbert'', ''Dune.epub''], File ''old'')]"

text \<open>The example library with the directory of the book by Frank Herbert locked.\<close>

definition example_fs_locked :: filesystem where
  "example_fs_locked = AList.update [''lib'', ''Frank Herbert'', ''Dune (3)''] Locked example_fs"

section \<open>Properties of the name sanitizer\<close>

subsection \<open>Title cleaning\<close>

lemma not_space_paren [simp]: "\<not> is_space (CHR ''('')" "\<not> is_space (CHR '')'')"
  by (simp_all add: is_space_def)

lemma not_digit_paren [simp]: "\<not> is_digit (CHR ''('')" "\<not> is_digit (CHR '')'')"
  by (simp_all add: is_digit_def)

lemma space_not_digit: "is_space c \<Longrightarrow> \<not> is_digit c"
  by (auto simp: is_space_def is_digit_def)

lemma dropWhile_all_append: "list_all P xs \<Longrightarrow> dropWhile P (xs @ ys) = dropWhile P ys"
  by (induction xs) auto

lemma takeWhile_all_append: "list_all P xs \<Longrightarrow> takeWhile P (xs @ ys) = xs @ takeWhile P ys"
  by (induction xs) auto

lemma list_all_takeWhile: "list_all P (takeWhile P xs)"
  by (induction xs) auto

lemma match_numbering_intro:
  assumes "list_all is_space w1" "k \<le> length w1" "ds \<noteq> []" "list_all is_digit ds" "list_all is_space w2"
  shows "match_numbering k (numbering w1 ds w2)"
proof -
  have a: "takeWhile is_space (numbering w1 ds w2) = w1"
    unfolding numbering_def by (simp add: takeWhile_all_append[OF assms(1)])
  have b: "dropWhile is_space (numbering w1 ds w2) = CHR ''('' # ds @ CHR '')'' # w2"
    unfolding numbering_def by (simp add: dropWhile_all_append[OF assms(1)])
  have c: "takeWhile is_digit (ds @ CHR '')'' # w2) = ds"
    by (simp add: takeWhile_all_append[OF assms(4)])
  have d: "dropWhile is_digit (ds @ CHR '')'' # w2) = CHR '')'' # w2"
    by (simp add: dropWhile_all_append[OF assms(4)])
  show ?thesis
    unfolding match_numbering_def a b using assms by (simp add: c d list_all_iff)
qed

lemma match_numbering_elim:
  assumes "match_numbering k s"
  shows "\<exists>w1 ds w2. s = numbering w1 ds w2 \<and> list_all is_space w1 \<and> k \<le> length w1 \<and>
           ds \<noteq> [] \<and> list_all is_digit ds \<and> list_all is_space w2"
proof -
  define w1 where "w1 = takeWhile is_space s"
  from assms obtain r where r: "dropWhile is_space s = CHR ''('' # r" and k: "k \<le> length w1"
    and ds: "takeWhile is_digit r \<noteq> []"
    and rest: "(case dropWhile is_digit r of [] \<Rightarrow> False | d # r' \<Rightarrow> d = CHR '')'' \<and> dropWhile is_space r' = [])"
    unfolding match_numbering_def w1_def by (auto split: list.splits)
  from rest obtain w2 where w2: "dropWhile is_digit r = CHR '')'' # w2" and w2s: "dropWhile is_space w2 = []"
    by (auto split: list.splits)
  have "s = w1 @ CHR ''('' # r" unfolding w1_def using r by (metis takeWhile_dropWhile_id)
  moreover have "r = takeWhile is_digit r @ CHR '')'' # w2" using w2 by (metis takeWhile_dropWhile_id)
  ultimately have "s = numbering w1 (takeWhile is_digit r) w2" unfolding numbering_def by simp
  moreover have "list_all is_space w1" unfolding w1_def list_all_iff by (auto dest: set_takeWhileD)
  moreover have "list_all is_digit (takeWhile is_digit r)" unfolding list_all_iff by (auto dest: set_takeWhileD)
  moreover have "list_all is_space w2" using w2s unfolding list_all_iff by (simp add: dropWhile_eq_Nil_conv)
  ultimately show ?thesis using k ds by blast
qed


lemma numbering_no_open:
  assumes "list_all is_space w1" "list_all is_digit ds" "list_all is_space w2"
  shows "takeWhile (\<lambda>c. c \<noteq> CHR ''('') (numbering w1 ds w2) = w1"
proof -
  have "\<And>x. x \<in> set w1 \<Longrightarrow> x \<noteq> CHR ''(''" using assms(1) by (auto simp: list_all_iff)
  then show ?thesis unfolding numbering_def by (simp add: takeWhile_append2)
qed

lemma numbering_tail_no_open:
  assumes "list_all is_digit ds" "list_all is_space w2"
  shows "CHR ''('' \<notin> set (ds @ CHR '')'' # w2)"
  using assms by (auto simp: list_all_iff)

text \<open>No match starts inside a part that does not end in whitespace.\<close>

lemma no_match_before:
  assumes q: "q \<noteq> []" "\<not> is_space (last q)"
    and u: "list_all is_space w1" "list_all is_digit ds" "list_all is_space w2"
  shows "\<not> match_numbering k (q @ numbering w1 ds w2)"
proof
  assume "match_numbering k (q @ numbering w1 ds w2)"
  then obtain w1' ds' w2' where eq: "q @ numbering w1 ds w2 = numbering w1' ds' w2'"
    and w1': "list_all is_space w1'" and ds': "list_all is_digit ds'" and w2': "list_all is_space w2'"
    using match_numbering_elim by blast
  let ?P = "\<lambda>c. c \<noteq> CHR ''(''"
  have r: "takeWhile ?P (numbering w1' ds' w2') = w1'"
    by (rule numbering_no_open[OF w1' ds' w2'])
  show False
  proof (cases "\<forall>x\<in>set q. ?P x")
    case True
    then have "takeWhile ?P (q @ numbering w1 ds w2) = q @ w1"
      using numbering_no_open[OF u] by (simp add: takeWhile_append2)
    with eq r have "q @ w1 = w1'" by simp
    then have "last q \<in> set w1'" using q(1) by auto
    with w1' q(2) show False by (auto simp: list_all_iff)
  next
    case False
    then have "takeWhile ?P (q @ numbering w1 ds w2) = takeWhile ?P q"
      by (simp add: takeWhile_append1)
    with eq r have t: "takeWhile ?P q = w1'" by simp
    from False have "dropWhile ?P q \<noteq> []" by (simp add: dropWhile_eq_Nil_conv)
    moreover have "\<not> ?P (hd (dropWhile ?P q))" using calculation by (rule hd_dropWhile)
    ultimately obtain q' where q': "dropWhile ?P q = CHR ''('' # q'"
      by (cases "dropWhile ?P q") auto
    have "q = w1' @ CHR ''('' # q'" using t q' by (metis takeWhile_dropWhile_id)
    with eq have "q' @ numbering w1 ds w2 = ds' @ CHR '')'' # w2'"
      unfolding numbering_def by simp
    moreover have "CHR ''('' \<in> set (q' @ numbering w1 ds w2)" unfolding numbering_def by simp
    ultimately show False using numbering_tail_no_open[OF ds' w2'] by simp
  qed
qed

lemma re_sub_numbering_strips:
  assumes "list_all is_space w1" "k \<le> length w1" "ds \<noteq> []" "list_all is_digit ds"
    "list_all is_space w2" "p = [] \<or> \<not> is_space (last p)"
  shows "re_sub_numbering k (p @ numbering w1 ds w2) = p"
  using assms(6)
proof (induction p)
  case Nil
  have "match_numbering k (numbering w1 ds w2)" using assms(1-5) by (rule match_numbering_intro)
  moreover have "numbering w1 ds w2 \<noteq> []" by (simp add: numbering_def)
  ultimately show ?case by (cases "numbering w1 ds w2") auto
next
  case (Cons x p)
  then have nm: "\<not> match_numbering k ((x # p) @ numbering w1 ds w2)"
    using no_match_before[OF _ _ assms(1,4,5), of "x # p" k] by simp
  from Cons.prems have "p = [] \<or> \<not> is_space (last p)" by (auto split: if_splits)
  with Cons.IH have "re_sub_numbering k (p @ numbering w1 ds w2) = p" by simp
  with nm show ?case by simp
qed

lemma re_sub_numbering_prefix: "prefix (re_sub_numbering k s) s"
  by (induction s) auto

lemma re_sub_numbering_changes:
  "re_sub_numbering k s \<noteq> s \<Longrightarrow> \<exists>p u. s = p @ u \<and> match_numbering k u"
proof (induction s)
  case Nil
  then show ?case by simp
next
  case (Cons c s)
  show ?case
  proof (cases "match_numbering k (c # s)")
    case True
    then show ?thesis by (metis append_Nil)
  next
    case False
    with Cons.prems have "re_sub_numbering k s \<noteq> s" by simp
    with Cons.IH obtain p u where "s = p @ u" "match_numbering k u" by blast
    then have "c # s = (c # p) @ u" by simp
    then show ?thesis using \<open>match_numbering k u\<close> by blast
  qed
qed

lemma has_numbering_suffix_intro:
  assumes "list_all is_space w1" "k \<le> length w1" "ds \<noteq> []" "list_all is_digit ds" "list_all is_space w2"
  shows "has_numbering_suffix k (p @ numbering w1 ds w2)"
proof -
  have w1: "list_all is_space (rev w1)" and ds: "list_all is_digit (rev ds)"
    and w2: "list_all is_space (rev w2)"
    using assms by simp_all
  have r: "rev (p @ numbering w1 ds w2) = rev w2 @ CHR '')'' # rev ds @ CHR ''('' # rev w1 @ rev p"
    by (simp add: numbering_def)
  have a: "dropWhile is_space (rev w2 @ CHR '')'' # rev ds @ CHR ''('' # rev w1 @ rev p)
             = CHR '')'' # rev ds @ CHR ''('' # rev w1 @ rev p"
    by (simp add: dropWhile_all_append[OF w2])
  have b: "takeWhile is_digit (rev ds @ CHR ''('' # rev w1 @ rev p) = rev ds"
    by (simp add: takeWhile_all_append[OF ds])
  have c: "dropWhile is_digit (rev ds @ CHR ''('' # rev w1 @ rev p) = CHR ''('' # rev w1 @ rev p"
    by (simp add: dropWhile_all_append[OF ds])
  have d: "takeWhile is_space (rev w1 @ rev p) = rev w1 @ takeWhile is_space (rev p)"
    by (rule takeWhile_all_append[OF w1])
  show ?thesis unfolding has_numbering_suffix_def r a using assms(2,3) by (simp add: b c d)
qed

lemma has_numbering_suffix_elim:
  assumes "has_numbering_suffix k s"
  shows "\<exists>p w1 ds w2. s = p @ numbering w1 ds w2 \<and> list_all is_space w1 \<and> k \<le> length w1 \<and>
           ds \<noteq> [] \<and> list_all is_digit ds \<and> list_all is_space w2 \<and> (p = [] \<or> \<not> is_space (last p))"
proof -
  define w2 where "w2 = takeWhile is_space (rev s)"
  from assms obtain r where r: "dropWhile is_space (rev s) = CHR '')'' # r"
    and ds: "takeWhile is_digit r \<noteq> []"
    and rest: "(case dropWhile is_digit r of [] \<Rightarrow> False | d # r' \<Rightarrow> d = CHR ''('' \<and> k \<le> length (takeWhile is_space r'))"
    unfolding has_numbering_suffix_def by (auto split: list.splits)
  from rest obtain r' where r': "dropWhile is_digit r = CHR ''('' # r'" and k: "k \<le> length (takeWhile is_space r')"
    by (auto split: list.splits)
  define ds' where "ds' = takeWhile is_digit r"
  define w1 where "w1 = takeWhile is_space r'"
  define p where "p = dropWhile is_space r'"
  have "rev s = w2 @ CHR '')'' # r" unfolding w2_def using r by (metis takeWhile_dropWhile_id)
  moreover have "r = ds' @ CHR ''('' # r'" unfolding ds'_def using r' by (metis takeWhile_dropWhile_id)
  moreover have "r' = w1 @ p" unfolding w1_def p_def by simp
  ultimately have "rev s = w2 @ CHR '')'' # ds' @ CHR ''('' # w1 @ p" by simp
  then have "rev (rev s) = rev (w2 @ CHR '')'' # ds' @ CHR ''('' # w1 @ p)" by simp
  then have s: "s = rev p @ numbering (rev w1) (rev ds') (rev w2)" by (simp add: numbering_def)
  have "list_all is_space (rev w1)" unfolding w1_def list_all_iff by (auto dest: set_takeWhileD)
  moreover have "list_all is_digit (rev ds')" unfolding ds'_def list_all_iff by (auto dest: set_takeWhileD)
  moreover have "list_all is_space (rev w2)" unfolding w2_def list_all_iff by (auto dest: set_takeWhileD)
  moreover have "rev p = [] \<or> \<not> is_space (last (rev p))"
    using hd_dropWhile[of is_space r'] by (auto simp: last_rev p_def)
  moreover have "rev ds' \<noteq> []" using ds ds'_def by simp
  moreover have "k \<le> length (rev w1)" using k w1_def by simp
  ultimately show ?thesis using s by blast
qed

lemma re_sub_numbering_unchanged:
  assumes "\<not> has_numbering_suffix k s"
  shows "re_sub_numbering k s = s"
proof (rule ccontr)
  assume "re_sub_numbering k s \<noteq> s"
  then obtain p u where s: "s = p @ u" and m: "match_numbering k u"
    using re_sub_numbering_changes by blast
  from match_numbering_elim[OF m] s have "has_numbering_suffix k s"
    using has_numbering_suffix_intro by blast
  with assms show False by simp
qed

lemma has_numbering_suffix_mono:
  assumes "has_numbering_suffix 1 s"
  shows "has_numbering_suffix 0 s"
proof -
  from has_numbering_suffix_elim[OF assms] obtain p w1 ds w2 where
    "s = p @ numbering w1 ds w2" "list_all is_space w1" "ds \<noteq> []" "list_all is_digit ds"
    "list_all is_space w2" by blast
  then show ?thesis using has_numbering_suffix_intro[of w1 0 ds w2 p] by simp
qed

lemma rstrip_by_append_tail: "rstrip_by P s @ rev (takeWhile P (rev s)) = s"
  unfolding rstrip_by_def
  by (metis rev_append rev_rev_ident takeWhile_dropWhile_id)

lemma rstrip_by_last: "rstrip_by P s \<noteq> [] \<Longrightarrow> \<not> P (last (rstrip_by P s))"
  unfolding rstrip_by_def by (simp add: last_rev hd_dropWhile)

lemma rstrip_by_hd: "rstrip_by P s \<noteq> [] \<Longrightarrow> hd (rstrip_by P s) = hd s"
  by (metis hd_append2 rstrip_by_append_tail)

lemma rstrip_by_id: "s = [] \<or> \<not> P (last s) \<Longrightarrow> rstrip_by P s = s"
  unfolding rstrip_by_def by (cases "rev s") (auto simp: last_rev)

lemma rstrip_by_Nil: "rstrip_by P [] = []"
  by (simp add: rstrip_by_def)

lemma strip_by_Nil: "strip_by P [] = []"
  by (simp add: strip_by_def rstrip_by_def)

lemma strip_by_ends:
  assumes "strip_by P s \<noteq> []"
  shows "\<not> P (hd (strip_by P s))" and "\<not> P (last (strip_by P s))"
proof -
  have ne: "dropWhile P s \<noteq> []"
  proof
    assume e: "dropWhile P s = []"
    have "strip_by P s = []" unfolding strip_by_def e by (rule rstrip_by_Nil)
    with assms show False by simp
  qed
  have "hd (strip_by P s) = hd (dropWhile P s)"
    using assms unfolding strip_by_def by (rule rstrip_by_hd)
  then show "\<not> P (hd (strip_by P s))" using hd_dropWhile[OF ne] by simp
  show "\<not> P (last (strip_by P s))" using assms unfolding strip_by_def by (rule rstrip_by_last)
qed

lemma strip_by_id: "s = [] \<or> (\<not> P (hd s) \<and> \<not> P (last s)) \<Longrightarrow> strip_by P s = s"
  unfolding strip_by_def by (cases s) (auto simp: rstrip_by_id)

lemma strip_by_idem: "strip_by P (strip_by P s) = strip_by P s"
  by (metis strip_by_ends strip_by_id)

lemma strip_by_infix: "\<exists>a b. s = a @ strip_by P s @ b"
  unfolding strip_by_def
  by (metis rstrip_by_append_tail takeWhile_dropWhile_id)

lemma strip_by_map:
  assumes "\<And>c. P (f c) = P c"
  shows "strip_by P (map f s) = map f (strip_by P s)"
proof -
  have "P \<circ> f = P" using assms by auto
  then show ?thesis
    unfolding strip_by_def rstrip_by_def
    by (simp add: dropWhile_map rev_map)
qed

lemma strip_ws_Nil: "strip_ws [] = []"
  by (simp add: strip_ws_def strip_by_Nil)

lemma clean_no_suffix:
  assumes "\<not> has_numbering_suffix 0 title"
  shows "clean_calibre_title title = strip_ws title"
proof -
  have a: "re_sub_numbering 0 title = title"
    using assms by (rule re_sub_numbering_unchanged)
  have "\<not> has_numbering_suffix 1 title" using assms has_numbering_suffix_mono by blast
  then have b: "re_sub_numbering 1 title = title" by (rule re_sub_numbering_unchanged)
  show ?thesis unfolding clean_calibre_title_def Let_def a b by (simp add: strip_ws_Nil)
qed

lemma clean_one_suffix:
  assumes "list_all is_space w1" "ds \<noteq> []" "list_all is_digit ds" "list_all is_space w2"
    "p = [] \<or> \<not> is_space (last p)" "\<not> has_numbering_suffix 1 p"
  shows "clean_calibre_title (p @ numbering w1 ds w2) = strip_ws p"
proof -
  have a: "re_sub_numbering 0 (p @ numbering w1 ds w2) = p"
    using assms(1-5) by (intro re_sub_numbering_strips) simp_all
  have b: "re_sub_numbering 1 p = p" using assms(6) by (rule re_sub_numbering_unchanged)
  have ne: "p @ numbering w1 ds w2 \<noteq> []" by (simp add: numbering_def)
  show ?thesis unfolding clean_calibre_title_def Let_def a b using ne by (simp add: numbering_def)
qed

lemma clean_two_suffixes:
  assumes "list_all is_space w1" "ds \<noteq> []" "list_all is_digit ds" "list_all is_space w2"
    "list_all is_space w0" "w0 \<noteq> []" "ds0 \<noteq> []" "list_all is_digit ds0"
    "q = [] \<or> \<not> is_space (last q)"
  shows "clean_calibre_title (q @ numbering w0 ds0 [] @ numbering w1 ds w2) = strip_ws q"
proof -
  have l: "last (q @ numbering w0 ds0 []) = CHR '')''" by (simp add: numbering_def)
  have "re_sub_numbering 0 ((q @ numbering w0 ds0 []) @ numbering w1 ds w2) = q @ numbering w0 ds0 []"
    using assms(1-4) l by (intro re_sub_numbering_strips) simp_all
  then have a: "re_sub_numbering 0 (q @ numbering w0 ds0 [] @ numbering w1 ds w2) = q @ numbering w0 ds0 []"
    by simp
  have "1 \<le> length w0" using assms(6) by (cases w0) auto
  then have b: "re_sub_numbering 1 (q @ numbering w0 ds0 []) = q"
    using assms(5,7,8,9) by (intro re_sub_numbering_strips) simp_all
  have ne: "q @ numbering w0 ds0 [] @ numbering w1 ds w2 \<noteq> []" by (simp add: numbering_def)
  show ?thesis unfolding clean_calibre_title_def Let_def a b using ne by (simp add: numbering_def)
qed

lemma clean_infix: "\<exists>a b. title = a @ clean_calibre_title title @ b"
proof (cases "title = []")
  case True
  then show ?thesis by (simp add: clean_calibre_title_def)
next
  case False
  define c1 where "c1 = re_sub_numbering 0 title"
  define c2 where "c2 = re_sub_numbering 1 c1"
  have "prefix c2 c1" unfolding c2_def by (rule re_sub_numbering_prefix)
  then obtain y where y: "c1 = c2 @ y" by (rule prefixE)
  have "prefix c1 title" unfolding c1_def by (rule re_sub_numbering_prefix)
  then obtain z where z: "title = c1 @ z" by (rule prefixE)
  obtain a b where ab: "c2 = a @ strip_by is_space c2 @ b" using strip_by_infix[of c2 is_space] by blast
  have c: "clean_calibre_title title = strip_by is_space c2"
    using False by (simp add: clean_calibre_title_def c1_def c2_def strip_ws_def)
  have "title = (a @ strip_by is_space c2 @ b) @ y @ z" using z y ab by simp
  then have "title = a @ clean_calibre_title title @ (b @ y @ z)" unfolding c by simp
  then show ?thesis by (intro exI)
qed

text \<open>
  Claim C1, as the code has it. \<open>clean_calibre_title\<close> always trims the whitespace at
  both ends of its result, also when there is no numbering to remove. (1) A title that
  does not end with a parenthesized run of digits (and optional whitespace) comes back
  with its leading and trailing whitespace trimmed, and otherwise unchanged. (2) A title
  that ends with such a suffix loses the suffix with the whitespace around it, and what
  stands before is trimmed. (3) When what stands before the suffix ends with whitespace and
  another parenthesized run of digits, the second substitution removes that one too.
  (4) In every case the result is a contiguous part of the title, so no character in
  it, digits included, is altered.
\<close>

theorem clean_calibre_title_cases:
  "(\<not> has_numbering_suffix 0 title \<longrightarrow> clean_calibre_title title = strip_ws title) \<and>
   (list_all is_space w1 \<and> ds \<noteq> [] \<and> list_all is_digit ds \<and> list_all is_space w2 \<and>
      (p = [] \<or> \<not> is_space (last p)) \<and> \<not> has_numbering_suffix 1 p
      \<longrightarrow> clean_calibre_title (p @ numbering w1 ds w2) = strip_ws p) \<and>
   (list_all is_space w1 \<and> ds \<noteq> [] \<and> list_all is_digit ds \<and> list_all is_space w2 \<and>
      list_all is_space w0 \<and> w0 \<noteq> [] \<and> ds0 \<noteq> [] \<and> list_all is_digit ds0 \<and>
      (q = [] \<or> \<not> is_space (last q))
      \<longrightarrow> clean_calibre_title (q @ numbering w0 ds0 [] @ numbering w1 ds w2) = strip_ws q) \<and>
   (\<exists>a b. title = a @ clean_calibre_title title @ b)"
proof (intro conjI impI)
  assume "\<not> has_numbering_suffix 0 title"
  then show "clean_calibre_title title = strip_ws title" by (rule clean_no_suffix)
next
  assume "list_all is_space w1 \<and> ds \<noteq> [] \<and> list_all is_digit ds \<and> list_all is_space w2 \<and>
      (p = [] \<or> \<not> is_space (last p)) \<and> \<not> has_numbering_suffix 1 p"
  then show "clean_calibre_title (p @ numbering w1 ds w2) = strip_ws p"
    by (elim conjE) (rule clean_one_suffix)
next
  assume "list_all is_space w1 \<and> ds \<noteq> [] \<and> list_all is_digit ds \<and> list_all is_space w2 \<and>
      list_all is_space w0 \<and> w0 \<noteq> [] \<and> ds0 \<noteq> [] \<and> list_all is_digit ds0 \<and>
      (q = [] \<or> \<not> is_space (last q))"
  then show "clean_calibre_title (q @ numbering w0 ds0 [] @ numbering w1 ds w2) = strip_ws q"
    by (elim conjE) (rule clean_two_suffixes)
next
  show "\<exists>a b. title = a @ clean_calibre_title title @ b" by (rule clean_infix)
qed

text \<open>The definitions that evaluate the string functions on a literal.\<close>

lemmas string_eval = is_space_def is_digit_def strip_ws_def strip_by_def rstrip_by_def
  has_numbering_suffix_def numbering_def

text \<open>The three cases of C1 at concrete titles.\<close>

theorem clean_calibre_title_cases_witness:
  "clean_calibre_title ''  Book 2020 '' = ''Book 2020'' \<and>
   clean_calibre_title ''Foundation (84)'' = ''Foundation'' \<and>
   clean_calibre_title ''Foo  (1) (84)'' = ''Foo''"
proof -
  have h1: "\<not> has_numbering_suffix 0 ''  Book 2020 ''" by (simp add: string_eval)
  have h2: "list_all is_space '' '' \<and> ''84'' \<noteq> [] \<and> list_all is_digit ''84'' \<and> list_all is_space [] \<and>
      (''Foundation'' = [] \<or> \<not> is_space (last ''Foundation'')) \<and> \<not> has_numbering_suffix 1 ''Foundation''"
    by (simp add: string_eval)
  have h3: "list_all is_space '' '' \<and> ''84'' \<noteq> [] \<and> list_all is_digit ''84'' \<and> list_all is_space [] \<and>
      list_all is_space ''  '' \<and> ''  '' \<noteq> [] \<and> ''1'' \<noteq> [] \<and> list_all is_digit ''1'' \<and>
      (''Foo'' = [] \<or> \<not> is_space (last ''Foo''))"
    by (simp add: string_eval)
  note T = clean_calibre_title_cases[of "''  Book 2020 ''" "'' ''" "''84''" "[]" "''Foundation''" "''  ''" "''1''" "''Foo''"]
  have a: "clean_calibre_title ''  Book 2020 '' = strip_ws ''  Book 2020 ''"
    by (rule mp[OF conjunct1[OF T] h1])
  have b: "clean_calibre_title (''Foundation'' @ numbering '' '' ''84'' []) = strip_ws ''Foundation''"
    by (rule mp[OF conjunct1[OF conjunct2[OF T]] h2])
  have c: "clean_calibre_title (''Foo'' @ numbering ''  '' ''1'' [] @ numbering '' '' ''84'' []) = strip_ws ''Foo''"
    by (rule mp[OF conjunct1[OF conjunct2[OF conjunct2[OF T]]] h3])
  have a': "strip_ws ''  Book 2020 '' = ''Book 2020''" by (simp add: string_eval)
  have b': "strip_ws ''Foundation'' = ''Foundation''" by (simp add: string_eval)
  have c': "strip_ws ''Foo'' = ''Foo''" by (simp add: string_eval)
  from a b c show ?thesis unfolding a' b' c' by (simp add: numbering_def)
qed

text \<open>
  Claim C1 as stated fails: a title without numbering suffix but with whitespace at its
  ends does not come back identical, and of two stacked suffixes separated by whitespace
  both are removed.
\<close>

theorem clean_calibre_title_counterexample:
  "\<not> has_numbering_suffix 0 ''  Foundation  '' \<and>
   clean_calibre_title ''  Foundation  '' \<noteq> ''  Foundation  '' \<and>
   clean_calibre_title ''Foo (1) (2)'' = ''Foo'' \<and>
   clean_calibre_title ''Foo (1) (2)'' \<noteq> ''Foo (1)''"
  by (simp add: clean_calibre_title_def match_numbering_def string_eval)

subsection \<open>File name sanitizing\<close>

lemma underscore_valid: "CHR ''_'' \<notin> set invalid_chars"
  by (simp add: invalid_chars_def)

lemma replace_invalid_clean: "set (replace_invalid s) \<inter> set invalid_chars = {}"
  using underscore_valid by (auto simp: replace_invalid_def)

lemma replace_invalid_id: "set s \<inter> set invalid_chars = {} \<Longrightarrow> replace_invalid s = s"
  unfolding replace_invalid_def by (induction s) auto

lemma strip_by_subset: "set (strip_by P s) \<subseteq> set s"
proof -
  obtain a b where "s = a @ strip_by P s @ b" using strip_by_infix by blast
  then have "set s = set a \<union> set (strip_by P s) \<union> set b" by (metis set_append Un_assoc)
  then show ?thesis by blast
qed

lemma dot_space_kept: "(if c \<in> set invalid_chars then CHR ''_'' else c) \<in> set ''. '' \<longleftrightarrow> c \<in> set ''. ''"
  by (simp add: invalid_chars_def)

lemma strip_replace_commute:
  "strip_chars ''. '' (replace_invalid s) = replace_invalid (strip_chars ''. '' s)"
  unfolding strip_chars_def replace_invalid_def
  by (rule strip_by_map) (rule dot_space_kept)

lemma sanitize_filename_alt:
  "sanitize_filename x = take 100 (strip_chars ''. '' (replace_invalid x))"
  by (simp add: sanitize_filename_def Let_def)

lemma sanitize_clean: "set (sanitize_filename x) \<inter> set invalid_chars = {}"
proof -
  have "set (sanitize_filename x) \<subseteq> set (strip_chars ''. '' (replace_invalid x))"
    unfolding sanitize_filename_alt by (rule set_take_subset)
  also have "\<dots> \<subseteq> set (replace_invalid x)"
    unfolding strip_chars_def by (rule strip_by_subset)
  finally show ?thesis using replace_invalid_clean[of x] by blast
qed

lemma sanitize_length: "length (sanitize_filename x) \<le> 100"
  unfolding sanitize_filename_alt by simp

lemma sanitize_hd:
  assumes "sanitize_filename x \<noteq> []"
  shows "hd (sanitize_filename x) \<notin> set ''. ''"
proof -
  let ?t = "strip_chars ''. '' (replace_invalid x)"
  from assms have ne: "?t \<noteq> []" unfolding sanitize_filename_alt by auto
  then have "hd (sanitize_filename x) = hd ?t"
    unfolding sanitize_filename_alt by (cases ?t) auto
  moreover have "hd ?t \<notin> set ''. ''"
    using strip_by_ends(1)[of "\<lambda>c. c \<in> set ''. ''" "replace_invalid x"] ne
    unfolding strip_chars_def by blast
  ultimately show ?thesis by simp
qed

lemma sanitize_untruncated:
  assumes "length (strip_chars ''. '' x) \<le> 100"
  shows "sanitize_filename x = strip_chars ''. '' (replace_invalid x)"
proof -
  have "length (strip_chars ''. '' (replace_invalid x)) = length (strip_chars ''. '' x)"
    unfolding strip_replace_commute by (simp add: replace_invalid_def)
  then show ?thesis unfolding sanitize_filename_alt using assms by simp
qed

lemma sanitize_last:
  assumes "sanitize_filename x \<noteq> []" "length (strip_chars ''. '' x) \<le> 100"
  shows "last (sanitize_filename x) \<notin> set ''. ''"
  using assms(1) strip_by_ends(2)[of "\<lambda>c. c \<in> set ''. ''" "replace_invalid x"]
  unfolding sanitize_untruncated[OF assms(2)] strip_chars_def by blast

lemma sanitize_Nil: "sanitize_filename [] = []"
  by (simp add: sanitize_filename_def replace_invalid_def strip_chars_def strip_by_Nil)

text \<open>
  Claim C2, as the code has it. For every string \<open>x\<close> (the empty one included, which
  gives the empty string) \<open>sanitize_filename x\<close> contains none of the characters
  \<open>< > : " / \ | ? *\<close>, has at most 100 characters and does not start with a dot or a
  space. It does not end with a dot or a space either when \<open>x\<close>, stripped of the dots and
  spaces at its ends, has at most 100 characters, that is, when nothing is cut off. Only
  the dot and the space character are stripped; other whitespace stays. The function is
  total.
\<close>

theorem sanitize_filename_safe:
  "set (sanitize_filename x) \<inter> set invalid_chars = {} \<and>
   length (sanitize_filename x) \<le> 100 \<and>
   sanitize_filename [] = [] \<and>
   (sanitize_filename x \<noteq> [] \<longrightarrow> hd (sanitize_filename x) \<notin> set ''. '') \<and>
   (sanitize_filename x \<noteq> [] \<and> length (strip_chars ''. '' x) \<le> 100
      \<longrightarrow> last (sanitize_filename x) \<notin> set ''. '')"
proof (intro conjI impI)
  show "set (sanitize_filename x) \<inter> set invalid_chars = {}" by (rule sanitize_clean)
  show "length (sanitize_filename x) \<le> 100" by (rule sanitize_length)
  show "sanitize_filename [] = []" by (rule sanitize_Nil)
next
  assume "sanitize_filename x \<noteq> []"
  then show "hd (sanitize_filename x) \<notin> set ''. ''" by (rule sanitize_hd)
next
  assume "sanitize_filename x \<noteq> [] \<and> length (strip_chars ''. '' x) \<le> 100"
  then show "last (sanitize_filename x) \<notin> set ''. ''" by (elim conjE) (rule sanitize_last)
qed

text \<open>The definitions that evaluate \<open>sanitize_filename\<close> on a literal.\<close>

lemmas sanitize_eval = sanitize_filename_def replace_invalid_def invalid_chars_def
  strip_chars_def strip_by_def rstrip_by_def

text \<open>C2 at a name with invalid characters, dots and spaces.\<close>

theorem sanitize_filename_safe_witness:
  "sanitize_filename '' .a<b>: c?. '' = ''a_b__ c_'' \<and>
   hd (sanitize_filename '' .a<b>: c?. '') \<notin> set ''. '' \<and>
   last (sanitize_filename '' .a<b>: c?. '') \<notin> set ''. ''"
proof -
  have v: "sanitize_filename '' .a<b>: c?. '' = ''a_b__ c_''" by (simp add: sanitize_eval)
  have h: "sanitize_filename '' .a<b>: c?. '' \<noteq> [] \<and> length (strip_chars ''. '' '' .a<b>: c?. '') \<le> 100"
    by (simp add: sanitize_eval)
  note T = sanitize_filename_safe[of "'' .a<b>: c?. ''"]
  have a: "hd (sanitize_filename '' .a<b>: c?. '') \<notin> set ''. ''"
    by (rule mp[OF conjunct1[OF conjunct2[OF conjunct2[OF conjunct2[OF T]]]] conjunct1[OF h]])
  have b: "last (sanitize_filename '' .a<b>: c?. '') \<notin> set ''. ''"
    by (rule mp[OF conjunct2[OF conjunct2[OF conjunct2[OF conjunct2[OF T]]]] h])
  from v a b show ?thesis by blast
qed

text \<open>A name of 101 characters whose hundredth character is a space.\<close>

lemma long_name: "strip_chars ''. '' (replace_invalid (replicate 99 (CHR ''a'') @ '' b''))
   = replicate 99 (CHR ''a'') @ '' b''"
proof -
  have "replace_invalid (replicate 99 (CHR ''a'') @ '' b'') = replicate 99 (CHR ''a'') @ '' b''"
    by (rule replace_invalid_id) (auto simp: invalid_chars_def)
  moreover have "strip_by (\<lambda>c. c \<in> set ''. '') (replicate 99 (CHR ''a'') @ '' b'') = replicate 99 (CHR ''a'') @ '' b''"
    by (rule strip_by_id) (simp add: hd_append)
  ultimately show ?thesis by (simp add: strip_chars_def)
qed

lemma sanitize_long_name:
  "sanitize_filename (replicate 99 (CHR ''a'') @ '' b'') = replicate 99 (CHR ''a'') @ '' ''"
  unfolding sanitize_filename_alt long_name by simp

lemma sanitize_long_name_again:
  "sanitize_filename (replicate 99 (CHR ''a'') @ '' '') = replicate 99 (CHR ''a'')"
proof -
  have r: "replace_invalid (replicate 99 (CHR ''a'') @ '' '') = replicate 99 (CHR ''a'') @ '' ''"
    by (rule replace_invalid_id) (auto simp: invalid_chars_def)
  have "strip_by (\<lambda>c. c \<in> set ''. '') (replicate 99 (CHR ''a'') @ '' '') = replicate 99 (CHR ''a'')"
    by (simp add: strip_by_def rstrip_by_def dropWhile_append3)
  then show ?thesis unfolding sanitize_filename_alt r strip_chars_def by simp
qed

text \<open>
  Claim C2 as stated fails: a leading tab is whitespace and is kept, and a name that is
  cut off at 100 characters can end with a space.
\<close>

theorem sanitize_filename_counterexample:
  "is_space (hd (sanitize_filename [CHR 0x09, CHR ''a''])) \<and>
   last (sanitize_filename (replicate 99 (CHR ''a'') @ '' b'')) = CHR '' ''"
proof -
  have "sanitize_filename [CHR 0x09, CHR ''a''] = [CHR 0x09, CHR ''a'']" by (simp add: sanitize_eval)
  then show ?thesis unfolding sanitize_long_name by (simp add: is_space_def)
qed

text \<open>
  Claim C3 (idempotence) at the name of 101 characters above: the first call cuts the
  name after the space, the second call strips that space.
\<close>

theorem sanitize_filename_not_idempotent:
  "sanitize_filename (sanitize_filename (replicate 99 (CHR ''a'') @ '' b''))
     \<noteq> sanitize_filename (replicate 99 (CHR ''a'') @ '' b'')"
  unfolding sanitize_long_name sanitize_long_name_again by simp

text \<open>Where nothing is cut off, \<open>sanitize_filename\<close> is idempotent.\<close>

lemma sanitize_idempotent_untruncated:
  assumes "length (strip_chars ''. '' x) \<le> 100"
  shows "sanitize_filename (sanitize_filename x) = sanitize_filename x"
proof -
  let ?s = "sanitize_filename x"
  have s: "?s = strip_chars ''. '' (replace_invalid x)" using assms by (rule sanitize_untruncated)
  have r: "replace_invalid ?s = ?s" by (rule replace_invalid_id) (rule sanitize_clean)
  have i: "strip_chars ''. '' ?s = ?s" unfolding s strip_chars_def by (rule strip_by_idem)
  have "length ?s \<le> 100" by (rule sanitize_length)
  then show ?thesis unfolding sanitize_filename_alt[of ?s] r i by simp
qed

text \<open>The same at the name with invalid characters, dots and spaces.\<close>

lemma sanitize_idempotent_untruncated_witness:
  "sanitize_filename (sanitize_filename '' .a<b>: c?. '') = sanitize_filename '' .a<b>: c?. ''"
proof -
  have "length (strip_chars ''. '' '' .a<b>: c?. '') \<le> 100" by (simp add: sanitize_eval)
  then show ?thesis by (rule sanitize_idempotent_untruncated)
qed

section \<open>Properties of the path resolver\<close>

subsection \<open>Decimal digits and rounding\<close>

lemma digits10_small: "n < 10 \<Longrightarrow> digits10 n = [''0123456789'' ! n]"
  by (simp add: digits10.simps)











lemma nth_digit: "m < 10 \<Longrightarrow> is_digit (''0123456789'' ! m)"
proof -
  assume "m < 10"
  then have "''0123456789'' ! m \<in> set ''0123456789''" by (intro nth_mem) simp
  then show ?thesis by (simp only: is_digit_def)
qed













lemma get_file_name_volume:
  assumes "truthy_str (m_series metadata)" "m_series_index metadata = Some (Finite x)" "x \<noteq> 0"
  shows "get_file_name metadata original_filename =
     Inr (sanitize_filename (''Volume '' @ volume_num x @ '' - '' @ clean_calibre_title (m_title metadata))
       @ str_suffix original_filename)"
  using assms by (simp add: get_file_name_def Let_def truthy_num_def)

lemma get_file_name_infinite:
  assumes "truthy_str (m_series metadata)"
    "m_series_index metadata = Some PosInf \<or> m_series_index metadata = Some NegInf"
  shows "get_file_name metadata original_filename = Inl OverflowError"
  using assms by (auto simp: get_file_name_def Let_def truthy_num_def)


subsection \<open>The examples of the spec\<close>

lemma clean_foundation: "clean_calibre_title ''Foundation (84)'' = ''Foundation''"
  by (simp add: clean_calibre_title_def match_numbering_def string_eval)

lemma suffix_book_epub: "str_suffix ''book.epub'' = ''.epub''"
  by (simp add: str_suffix_def path_parts_def path_name_def name_suffix_def)














lemma sanitize_foundation: "sanitize_filename ''Foundation'' = ''Foundation''"
  by (simp add: sanitize_eval)

lemma sanitize_volume_07: "sanitize_filename ''Volume 07 - Foundation'' = ''Volume 07 - Foundation''"
  by (simp add: sanitize_eval)

lemma py_int_of_int: "py_int (of_int i) = i"
  by (simp add: py_int_def)

lemma volume_num_whole: "volume_num (of_int i) = zfill 2 (str_int i)"
  by (simp add: volume_num_def py_int_of_int)

lemma volume_num_7: "volume_num 7 = ''07''"
  using volume_num_whole[of 7] by (simp add: zfill_def str_int_def digits10_small)

text \<open>
  Claim C4 at the whole index 0 of a book in a series: the test
  \<^verbatim>\<open>if series and series_index\<close> takes 0 for a missing index, and the name is the
  title alone, without \<open>Volume 00 - \<close>.
\<close>

theorem get_file_name_index_0:
  "truthy_str (m_series (foundation (Some (Finite 0)))) \<and>
   0 = rat_of_int (py_int 0) \<and>
   get_file_name (foundation (Some (Finite 0))) ''book.epub'' = Inr ''Foundation.epub'' \<and>
   get_file_name (foundation (Some (Finite 0))) ''book.epub'' \<noteq> Inr ''Volume 00 - Foundation.epub''"
  by (simp add: get_file_name_def foundation_def truthy_str_def truthy_num_def py_int_def
      clean_foundation suffix_book_epub sanitize_foundation)

text \<open>For a whole index other than zero the file name is as claim C4 says.\<close>

lemma get_file_name_whole:
  assumes "truthy_str (m_series metadata)" "m_series_index metadata = Some (Finite (of_int i))" "i \<noteq> 0"
  shows "get_file_name metadata original_filename =
     Inr (sanitize_filename (''Volume '' @ zfill 2 (str_int i) @ '' - '' @ clean_calibre_title (m_title metadata))
       @ str_suffix original_filename)"
  using assms get_file_name_volume[of metadata "of_int i" original_filename]
  by (simp add: volume_num_whole)

lemma zfill_wide: "2 \<le> length s \<Longrightarrow> zfill 2 s = s"
  by (simp add: zfill_def)

lemma zfill_one_digit:
  assumes "0 \<le> i" "i < 10"
  shows "zfill 2 (str_int i) = CHR ''0'' # str_int i"
proof -
  have "is_digit (''0123456789'' ! nat i)" using assms by (intro nth_digit) simp
  then have "''0123456789'' ! nat i \<noteq> CHR ''+'' \<and> ''0123456789'' ! nat i \<noteq> CHR ''-''"
    by (auto simp: is_digit_def)
  then show ?thesis using assms by (simp add: zfill_def str_int_def digits10_small)
qed

text \<open>The example of the spec: index 7.\<close>

lemma get_file_name_index_7:
  "get_file_name (foundation (Some (Finite 7))) ''book.epub'' = Inr ''Volume 07 - Foundation.epub''"
proof -
  have "truthy_str (m_series (foundation (Some (Finite 7))))" by (simp add: foundation_def truthy_str_def)
  moreover have "m_series_index (foundation (Some (Finite 7))) = Some (Finite (of_int 7))"
    by (simp add: foundation_def)
  moreover have "(7::int) \<noteq> 0" by simp
  ultimately have "get_file_name (foundation (Some (Finite 7))) ''book.epub'' =
     Inr (sanitize_filename (''Volume '' @ zfill 2 (str_int 7) @ '' - '' @
        clean_calibre_title (m_title (foundation (Some (Finite 7)))))
       @ str_suffix ''book.epub'')"
    by (rule get_file_name_whole)
  moreover have "zfill 2 (str_int 7) = ''07''" by (simp add: zfill_def str_int_def digits10_small)
  ultimately show ?thesis
    by (simp add: foundation_def clean_foundation suffix_book_epub sanitize_volume_07)
qed

text \<open>The group folders of the spec's examples, and a standalone book.\<close>

lemma get_series_folder_name_examples:
  "get_series_folder_name (foundation idx) = ''Isaac Asimov - Foundation'' \<and>
   get_series_folder_name ((foundation idx)\<lparr>m_series := None\<rparr>) = ''Isaac Asimov''"
  by (simp add: get_series_folder_name_def foundation_def sanitize_eval)

lemma get_file_name_standalone:
  "get_file_name dune ''Dune.epub'' = Inr ''Dune.epub''"
  by (simp add: get_file_name_def dune_def clean_calibre_title_def match_numbering_def string_eval
      str_suffix_def path_parts_def path_name_def name_suffix_def sanitize_eval Let_def truthy_str_def)

section \<open>Properties of the report\<close>





section \<open>Properties of the migration engine\<close>

subsection \<open>What a step leaves as it is\<close>

lemma logmsg_fields [simp]:
  "stats (logmsg l m st) = stats st" "fs (logmsg l m st) = fs st"
  "dry_run (logmsg l m st) = dry_run st" "calibre_path (logmsg l m st) = calibre_path st"
  "komga_path (logmsg l m st) = komga_path st" "metadata_cache (logmsg l m st) = metadata_cache st"
  "db (logmsg l m st) = db st" "logged (logmsg l m st) = logged st @ [(l, m)]"
  by (simp_all add: logmsg_def)

lemma count_total_fields [simp]:
  "fs (count_total st) = fs st" "dry_run (count_total st) = dry_run st"
  "calibre_path (count_total st) = calibre_path st" "komga_path (count_total st) = komga_path st"
  "metadata_cache (count_total st) = metadata_cache st" "db (count_total st) = db st"
  "logged (count_total st) = logged st"
  "stats (count_total st) = (stats st)\<lparr>total_books := total_books (stats st) + 1\<rparr>"
  by (simp_all add: count_total_def)

lemma count_migrated_fields [simp]:
  "fs (count_migrated st) = fs st" "dry_run (count_migrated st) = dry_run st"
  "calibre_path (count_migrated st) = calibre_path st" "komga_path (count_migrated st) = komga_path st"
  "metadata_cache (count_migrated st) = metadata_cache st" "db (count_migrated st) = db st"
  "logged (count_migrated st) = logged st"
  "stats (count_migrated st) = (stats st)\<lparr>migrated_books := migrated_books (stats st) + 1\<rparr>"
  by (simp_all add: count_migrated_def)

lemma count_skipped_fields [simp]:
  "fs (count_skipped st) = fs st" "dry_run (count_skipped st) = dry_run st"
  "calibre_path (count_skipped st) = calibre_path st" "komga_path (count_skipped st) = komga_path st"
  "metadata_cache (count_skipped st) = metadata_cache st" "db (count_skipped st) = db st"
  "logged (count_skipped st) = logged st"
  "stats (count_skipped st) = (stats st)\<lparr>skipped_books := skipped_books (stats st) + 1\<rparr>"
  by (simp_all add: count_skipped_def)

lemma count_error_fields [simp]:
  "fs (count_error st) = fs st" "dry_run (count_error st) = dry_run st"
  "calibre_path (count_error st) = calibre_path st" "komga_path (count_error st) = komga_path st"
  "metadata_cache (count_error st) = metadata_cache st" "db (count_error st) = db st"
  "logged (count_error st) = logged st"
  "stats (count_error st) = (stats st)\<lparr>errors := errors (stats st) + 1\<rparr>"
  by (simp_all add: count_error_def)

lemma same_object_refl [simp]: "same_object s s"
  by (simp add: same_object_def)

lemma same_object_trans: "same_object s t \<Longrightarrow> same_object t u \<Longrightarrow> same_object s u"
  by (simp add: same_object_def)

lemma same_object_log [simp]:
  "same_object (logmsg l m s) t = same_object s t" "same_object s (logmsg l m t) = same_object s t"
  by (simp_all add: same_object_def)

lemma same_object_count_total [simp]:
  "same_object (count_total s) t = same_object s t" "same_object s (count_total t) = same_object s t"
  by (simp_all add: same_object_def)

lemma same_object_fs [simp]:
  "same_object (s\<lparr>fs := f\<rparr>) t = same_object s t" "same_object s (t\<lparr>fs := f\<rparr>) = same_object s t"
  by (simp_all add: same_object_def)

lemma would_create_frame:
  assumes "would_create md sp files st = Inr st' \<or> would_create md sp files st = Inl (e, st')"
  shows "stats st' = stats st \<and> fs st' = fs st \<and> same_object st' st"
  using assms
proof (induction files arbitrary: st)
  case Nil
  then show ?case by auto
next
  case (Cons f files)
  show ?case
  proof (cases "get_file_name md (path_name f)")
    case (Inl a)
    with Cons.prems show ?thesis by auto
  next
    case (Inr name)
    with Cons.prems Cons.IH[of "logmsg INFO (Would_create (joinpath sp name)) st"]
    show ?thesis by simp
  qed
qed

lemma copy_files_frame:
  assumes "copy_files md sp files st = Inr st' \<or> copy_files md sp files st = Inl (e, st')"
  shows "stats st' = stats st \<and> same_object st' st"
  using assms
proof (induction files arbitrary: st)
  case Nil
  then show ?case by auto
next
  case (Cons f files)
  show ?case
  proof (cases "get_file_name md (path_name f)")
    case (Inl a)
    with Cons.prems show ?thesis by auto
  next
    case name: (Inr name)
    let ?d = "joinpath sp name"
    show ?thesis
    proof (cases "path_exists (fs st) ?d")
      case (Inl a)
      with name Cons.prems show ?thesis by (auto simp: Let_def)
    next
      case ex: (Inr b)
      show ?thesis
      proof (cases b)
        case True
        with name ex Cons.prems Cons.IH[of "logmsg WARNING (File_already_exists ?d) st"]
        show ?thesis by (simp add: Let_def)
      next
        case False
        show ?thesis
        proof (cases "copy2 (fs st) f ?d")
          case (Inl a)
          with name ex False Cons.prems show ?thesis by (auto simp: Let_def)
        next
          case (Inr files')
          with name ex False Cons.prems
            Cons.IH[of "logmsg DEBUG (Copied f ?d) (st\<lparr>fs := files'\<rparr>)"]
          show ?thesis by (simp add: Let_def)
        qed
      qed
    qed
  qed
qed

text \<open>
  \<open>migrate_book\<close> returns with exactly one outcome counted; when it raises, no counter
  has changed.
\<close>

lemma migrate_book_outcome:
  assumes "migrate_book book_path st = Inr (ok, st')"
  shows "one_outcome (stats st) (stats st') \<and> same_object st' st"
proof (cases "get_book_metadata st book_path")
  case None
  with assms show ?thesis by (auto simp: migrate_book_def one_outcome_def same_object_def)
next
  case (Some md)
  show ?thesis
  proof (cases "find_ebook_files (fs st) book_path")
    case (Inl e)
    with Some assms show ?thesis by (simp add: migrate_book_def)
  next
    case (Inr files)
    show ?thesis
    proof (cases "files = []")
      case True
      with Some Inr assms show ?thesis by (auto simp: migrate_book_def one_outcome_def same_object_def)
    next
      case False
      let ?sp = "joinpath (komga_path st) (get_series_folder_name md)"
      let ?st1 = "logmsg INFO (Migrating (m_author md) (m_title md) (series_info md) (get_series_folder_name md)) st"
      show ?thesis
      proof (cases "dry_run st")
        case True
        with Some Inr False assms obtain st2 where
          w: "would_create md ?sp files ?st1 = Inr st2" and s: "st' = count_migrated st2"
          by (auto simp: migrate_book_def Let_def split: sum.splits)
        from would_create_frame[of md ?sp files ?st1 st2] w
        have "stats st2 = stats st \<and> same_object st2 st" by simp
        with s show ?thesis by (simp add: one_outcome_def same_object_def)
      next
        case dry: False
        show ?thesis
        proof (cases "mkdir (fs ?st1) ?sp")
          case (Inl p)
          obtain e files' where p: "p = (e, files')" by (cases p)
          with Inl Some Inr False dry assms
          have "st' = count_error (logmsg ERROR (Error_migrating book_path e) (?st1\<lparr>fs := files'\<rparr>))"
            by (simp add: migrate_book_def Let_def)
          then show ?thesis by (simp add: one_outcome_def same_object_def)
        next
          case mk: (Inr files')
          show ?thesis
          proof (cases "copy_files md ?sp files (?st1\<lparr>fs := files'\<rparr>)")
            case (Inl p)
            obtain e st2 where p: "p = (e, st2)" by (cases p)
            with Inl Some Inr False dry mk assms
            have "st' = count_error (logmsg ERROR (Error_migrating book_path e) st2)"
              by (simp add: migrate_book_def Let_def)
            moreover have "stats st2 = stats st \<and> same_object st2 st"
              using copy_files_frame[of md ?sp files "?st1\<lparr>fs := files'\<rparr>" st2 e] Inl p by simp
            ultimately show ?thesis by (simp add: one_outcome_def same_object_def)
          next
            case cp: (Inr st2)
            with Some Inr False dry mk assms have "st' = count_migrated st2"
              by (simp add: migrate_book_def Let_def)
            moreover have "stats st2 = stats st \<and> same_object st2 st"
              using copy_files_frame[of md ?sp files "?st1\<lparr>fs := files'\<rparr>" st2] cp by simp
            ultimately show ?thesis by (simp add: one_outcome_def same_object_def)
          qed
        qed
      qed
    qed
  qed
qed

lemma migrate_book_raises:
  assumes "migrate_book book_path st = Inl (e, st')"
  shows "stats st' = stats st \<and> same_object st' st \<and> fs st' = fs st \<and>
    (find_ebook_files (fs st) book_path = Inl e \<or> dry_run st)"
proof (cases "get_book_metadata st book_path")
  case None
  with assms show ?thesis by (simp add: migrate_book_def)
next
  case (Some md)
  show ?thesis
  proof (cases "find_ebook_files (fs st) book_path")
    case (Inl e')
    with Some assms show ?thesis by (simp add: migrate_book_def)
  next
    case (Inr files)
    let ?sp = "joinpath (komga_path st) (get_series_folder_name md)"
    let ?st1 = "logmsg INFO (Migrating (m_author md) (m_title md) (series_info md) (get_series_folder_name md)) st"
    from Some Inr assms have d: "dry_run st" and w: "would_create md ?sp files ?st1 = Inl (e, st')"
      by (auto simp: migrate_book_def Let_def split: sum.splits if_splits prod.splits)
    from would_create_frame[of md ?sp files ?st1 st' e] w d show ?thesis by simp
  qed
qed

lemma migrate_book_dry_fs:
  assumes "dry_run st" "migrate_book book_path st = Inr (ok, st')"
  shows "fs st' = fs st"
proof (cases "get_book_metadata st book_path")
  case None
  with assms show ?thesis by (auto simp: migrate_book_def)
next
  case (Some md)
  show ?thesis
  proof (cases "find_ebook_files (fs st) book_path")
    case (Inl e')
    with Some assms show ?thesis by (simp add: migrate_book_def)
  next
    case (Inr files)
    let ?sp = "joinpath (komga_path st) (get_series_folder_name md)"
    let ?st1 = "logmsg INFO (Migrating (m_author md) (m_title md) (series_info md) (get_series_folder_name md)) st"
    show ?thesis
    proof (cases "files = []")
      case True
      with Some Inr assms show ?thesis by (auto simp: migrate_book_def)
    next
      case False
      with Some Inr assms obtain st2 where
        w: "would_create md ?sp files ?st1 = Inr st2" and s: "st' = count_migrated st2"
        by (auto simp: migrate_book_def Let_def split: sum.splits)
      from would_create_frame[of md ?sp files ?st1 st2] w s show ?thesis by simp
    qed
  qed
qed

lemma one_outcome_partition:
  "one_outcome (s\<lparr>total_books := total_books s + 1\<rparr>) s' \<Longrightarrow> counters_partition s \<Longrightarrow> counters_partition s'"
  by (auto simp: one_outcome_def counters_partition_def)


subsection \<open>The counters along the loop\<close>

text \<open>
  The loop keeps the partition of the counters as long as it runs. When it is left by an
  exception, the counters still form a partition if a probe of the book's directory
  raised, and one book is counted without outcome if \<open>migrate_book\<close> raised.
\<close>

lemma process_books_invariant:
  assumes "counters_partition (stats st)"
  shows "(process_books af items st = Inr st' \<longrightarrow> counters_partition (stats st') \<and> same_object st' st) \<and>
         (process_books af items st = Inl (e, st') \<longrightarrow>
            (counters_partition (stats st') \<or> one_uncounted (stats st')) \<and> same_object st' st)"
  using assms
proof (induction items arbitrary: st)
  case Nil
  then show ?case by auto
next
  case (Cons item items)
  obtain path_key md where item: "item = (path_key, md)" by (cases item)
  let ?bp = "joinpath (calibre_path st) path_key"
  let ?P = "(process_books af (item # items) st = Inr st' \<longrightarrow>
               counters_partition (stats st') \<and> same_object st' st) \<and>
            (process_books af (item # items) st = Inl (e, st') \<longrightarrow>
               (counters_partition (stats st') \<or> one_uncounted (stats st')) \<and> same_object st' st)"
  show ?case
  proof (cases "path_exists (fs st) ?bp")
    case (Inl e0)
    with item Cons.prems show ?thesis by (auto simp: Let_def)
  next
    case ex: (Inr b)
    show ?thesis
    proof (cases "if b then is_dir (fs st) ?bp else Inr False")
      case (Inl e0)
      with item ex Cons.prems show ?thesis by (auto simp: Let_def)
    next
      case dir: (Inr d)
      consider (missing) "\<not> d" | (filtered) "d" "filtered_out af md" | (counted) "d" "\<not> filtered_out af md"
        by blast
      then show ?thesis
      proof cases
        case missing
        let ?w = "logmsg WARNING (Book_path_missing ?bp) st"
        have p: "process_books af (item # items) st = process_books af items ?w"
          using item ex dir missing by (simp add: Let_def)
        have "counters_partition (stats ?w)" using Cons.prems by simp
        from Cons.IH[OF this] show ?thesis unfolding p by simp
      next
        case filtered
        have p: "process_books af (item # items) st = process_books af items st"
          using item ex dir filtered by (simp add: Let_def)
        from Cons.IH[OF Cons.prems] show ?thesis unfolding p by simp
      next
        case counted
        show ?thesis
        proof (cases "migrate_book ?bp (count_total st)")
          case (Inl q)
          obtain e1 st1 where q: "q = (e1, st1)" by (cases q)
          with Inl have m: "migrate_book ?bp (count_total st) = Inl (e1, st1)" by simp
          have p: "process_books af (item # items) st = Inl (e1, st1)"
            using item ex dir counted m by (simp add: Let_def)
          from migrate_book_raises[OF m] have "stats st1 = stats (count_total st)" "same_object st1 st"
            by simp_all
          with Cons.prems have "one_uncounted (stats st1)" "same_object st1 st"
            by (simp_all add: one_uncounted_def counters_partition_def)
          then show ?thesis unfolding p by auto
        next
          case (Inr q)
          obtain ok st1 where q: "q = (ok, st1)" by (cases q)
          with Inr have m: "migrate_book ?bp (count_total st) = Inr (ok, st1)" by simp
          have p: "process_books af (item # items) st = process_books af items st1"
            using item ex dir counted m by (simp add: Let_def)
          from migrate_book_outcome[OF m] have o: "one_outcome (stats (count_total st)) (stats st1)"
            and so: "same_object st1 st" by simp_all
          from o Cons.prems have "counters_partition (stats st1)" by (simp add: one_outcome_partition)
          from Cons.IH[OF this] so show ?thesis unfolding p by (auto intro: same_object_trans)
        qed
      qed
    qed
  qed
qed

lemma print_summary_frame:
  "\<exists>st'. print_summary st = Inr st' \<and> stats st' = stats st \<and> fs st' = fs st"
  by (cases "0 < total_books (stats st)")
     (auto simp: print_summary_def Let_def py_truediv_def)

lemma validate_paths_frame:
  assumes "validate_paths st = Inr (ok, st') \<or> validate_paths st = Inl (e, st')"
  shows "stats st' = stats st \<and> same_object st' st \<and> (dry_run st \<longrightarrow> fs st' = fs st)"
  using assms
  by (auto simp: validate_paths_def split: sum.splits if_splits prod.splits)

lemma load_calibre_metadata_frame:
  "load_calibre_metadata st = (ok, st') \<Longrightarrow>
     stats st' = stats st \<and> fs st' = fs st \<and> dry_run st' = dry_run st"
  by (auto simp: load_calibre_metadata_def Let_def split: option.splits)

text \<open>
  The same for a whole run. A run that returns ends with the partition; a run that is
  left by an exception ends with the partition, or with one book counted without outcome.
\<close>

lemma migrate_library_counters:
  assumes "counters_partition (stats st)"
  shows "(migrate_library af st = Inr st' \<longrightarrow> counters_partition (stats st')) \<and>
         (migrate_library af st = Inl (e, st') \<longrightarrow>
            counters_partition (stats st') \<or> one_uncounted (stats st'))"
proof -
  define st0 where "st0 = logmsg INFO (Dry_run_is (dry_run st))
      (logmsg INFO (Starting_migration (calibre_path st) (komga_path st)) st)"
  have s0: "stats st0 = stats st" by (simp add: st0_def)
  have ml: "migrate_library af st =
      (case validate_paths st0 of
           Inl (e, st) \<Rightarrow> Inl (e, st)
         | Inr (ok, st) \<Rightarrow>
             if \<not> ok then Inr st
             else (case load_calibre_metadata st of
                     (ok, st) \<Rightarrow>
                       if \<not> ok then Inr (logmsg ERROR Failed_to_load_metadata st)
                       else (case process_books af (metadata_cache st) st of
                               Inl (e, st) \<Rightarrow> Inl (e, st)
                             | Inr st \<Rightarrow>
                                 (case print_summary st of
                                    Inl e \<Rightarrow> Inl (e, st)
                                  | Inr st \<Rightarrow> Inr st))))"
    by (simp add: migrate_library_def st0_def Let_def)
  show ?thesis
  proof (cases "validate_paths st0")
    case (Inl q)
    obtain e1 st1 where q: "q = (e1, st1)" by (cases q)
    from validate_paths_frame[of st0 _ st1 e1] Inl q have "stats st1 = stats st" by (simp add: s0)
    with assms Inl q show ?thesis unfolding ml by (auto simp: counters_partition_def)
  next
    case (Inr q)
    obtain ok st1 where q: "q = (ok, st1)" by (cases q)
    from validate_paths_frame[of st0 ok st1] Inr q have s1: "stats st1 = stats st" by (simp add: s0)
    show ?thesis
    proof (cases ok)
      case False
      with Inr q s1 assms show ?thesis unfolding ml by (auto simp: counters_partition_def)
    next
      case True
      obtain ok2 st2 where l: "load_calibre_metadata st1 = (ok2, st2)" by (cases "load_calibre_metadata st1")
      from load_calibre_metadata_frame[OF l] s1 have s2: "stats st2 = stats st" by simp
      show ?thesis
      proof (cases ok2)
        case False
        with Inr q True l s2 assms show ?thesis unfolding ml by (auto simp: counters_partition_def)
      next
        case ok2: True
        have c2: "counters_partition (stats st2)" using s2 assms by (simp add: counters_partition_def)
        show ?thesis
        proof (cases "process_books af (metadata_cache st2) st2")
          case (Inl r)
          obtain e3 st3 where r: "r = (e3, st3)" by (cases r)
          from process_books_invariant[OF c2, of af "metadata_cache st2" st3 e3] Inl r
          have "counters_partition (stats st3) \<or> one_uncounted (stats st3)" by simp
          with Inr q True l ok2 Inl r show ?thesis unfolding ml by auto
        next
          case pb: (Inr st3)
          from process_books_invariant[OF c2, of af "metadata_cache st2" st3] pb
          have c3: "counters_partition (stats st3)" by simp
          from print_summary_frame[of st3] obtain st4 where
            ps: "print_summary st3 = Inr st4" "stats st4 = stats st3" by blast
          with c3 have "counters_partition (stats st4)" by (simp add: counters_partition_def)
          with Inr q True l ok2 pb ps(1) show ?thesis unfolding ml by auto
        qed
      qed
    qed
  qed
qed

subsection \<open>The file system in a dry run\<close>

lemma process_books_dry_fs:
  assumes "dry_run st" "process_books af items st = Inr st' \<or> process_books af items st = Inl (e, st')"
  shows "fs st' = fs st"
  using assms
proof (induction items arbitrary: st)
  case Nil
  then show ?case by auto
next
  case (Cons item items)
  obtain path_key md where item: "item = (path_key, md)" by (cases item)
  let ?bp = "joinpath (calibre_path st) path_key"
  show ?case
  proof (cases "path_exists (fs st) ?bp")
    case (Inl e0)
    with item Cons.prems show ?thesis by (auto simp: Let_def)
  next
    case ex: (Inr b)
    show ?thesis
    proof (cases "if b then is_dir (fs st) ?bp else Inr False")
      case (Inl e0)
      with item ex Cons.prems show ?thesis by (auto simp: Let_def)
    next
      case dir: (Inr d)
      consider (missing) "\<not> d" | (filtered) "d" "filtered_out af md" | (counted) "d" "\<not> filtered_out af md"
        by blast
      then show ?thesis
      proof cases
        case missing
        let ?w = "logmsg WARNING (Book_path_missing ?bp) st"
        have p: "process_books af (item # items) st = process_books af items ?w"
          using item ex dir missing by (simp add: Let_def)
        have "dry_run ?w" using Cons.prems(1) by simp
        from Cons.IH[OF this] Cons.prems(2) show ?thesis unfolding p by simp
      next
        case filtered
        have p: "process_books af (item # items) st = process_books af items st"
          using item ex dir filtered by (simp add: Let_def)
        from Cons.IH[OF Cons.prems(1)] Cons.prems(2) show ?thesis unfolding p by simp
      next
        case counted
        show ?thesis
        proof (cases "migrate_book ?bp (count_total st)")
          case (Inl q)
          obtain e1 st1 where q: "q = (e1, st1)" by (cases q)
          with Inl have m: "migrate_book ?bp (count_total st) = Inl (e1, st1)" by simp
          have p: "process_books af (item # items) st = Inl (e1, st1)"
            using item ex dir counted m by (simp add: Let_def)
          from migrate_book_raises[OF m] Cons.prems(2) show ?thesis unfolding p by simp
        next
          case (Inr q)
          obtain ok st1 where q: "q = (ok, st1)" by (cases q)
          with Inr have m: "migrate_book ?bp (count_total st) = Inr (ok, st1)" by simp
          have p: "process_books af (item # items) st = process_books af items st1"
            using item ex dir counted m by (simp add: Let_def)
          have d: "dry_run (count_total st)" using Cons.prems(1) by simp
          from migrate_book_dry_fs[OF d m] have f: "fs st1 = fs st" by simp
          from migrate_book_outcome[OF m] Cons.prems(1) have "dry_run st1" by (simp add: same_object_def)
          from Cons.IH[OF this] Cons.prems(2) f show ?thesis unfolding p by simp
        qed
      qed
    qed
  qed
qed

text \<open>
  A dry run leaves the file system as it is, however it ends: no directory is created,
  the destination root included, and no file is copied.
\<close>

lemma migrate_library_dry_fs:
  assumes "dry_run st" "migrate_library af st = Inr st' \<or> migrate_library af st = Inl (e, st')"
  shows "fs st' = fs st"
proof -
  define st0 where "st0 = logmsg INFO (Dry_run_is (dry_run st))
      (logmsg INFO (Starting_migration (calibre_path st) (komga_path st)) st)"
  have s0: "fs st0 = fs st" "dry_run st0" using assms(1) by (simp_all add: st0_def)
  have ml: "migrate_library af st =
      (case validate_paths st0 of
           Inl (e, st) \<Rightarrow> Inl (e, st)
         | Inr (ok, st) \<Rightarrow>
             if \<not> ok then Inr st
             else (case load_calibre_metadata st of
                     (ok, st) \<Rightarrow>
                       if \<not> ok then Inr (logmsg ERROR Failed_to_load_metadata st)
                       else (case process_books af (metadata_cache st) st of
                               Inl (e, st) \<Rightarrow> Inl (e, st)
                             | Inr st \<Rightarrow>
                                 (case print_summary st of
                                    Inl e \<Rightarrow> Inl (e, st)
                                  | Inr st \<Rightarrow> Inr st))))"
    by (simp add: migrate_library_def st0_def Let_def)
  show ?thesis
  proof (cases "validate_paths st0")
    case (Inl q)
    obtain e1 st1 where q: "q = (e1, st1)" by (cases q)
    from validate_paths_frame[of st0 _ st1 e1] Inl q s0 have "fs st1 = fs st" by simp
    with assms(2) Inl q show ?thesis unfolding ml by auto
  next
    case (Inr q)
    obtain ok st1 where q: "q = (ok, st1)" by (cases q)
    from validate_paths_frame[of st0 ok st1] Inr q s0
    have s1: "fs st1 = fs st" "dry_run st1" by (simp_all add: same_object_def)
    show ?thesis
    proof (cases ok)
      case False
      with Inr q s1 assms(2) show ?thesis unfolding ml by auto
    next
      case True
      obtain ok2 st2 where l: "load_calibre_metadata st1 = (ok2, st2)" by (cases "load_calibre_metadata st1")
      from load_calibre_metadata_frame[OF l] s1 have s2: "fs st2 = fs st" "dry_run st2" by simp_all
      show ?thesis
      proof (cases ok2)
        case False
        with Inr q True l s2 assms(2) show ?thesis unfolding ml by auto
      next
        case ok2: True
        show ?thesis
        proof (cases "process_books af (metadata_cache st2) st2")
          case (Inl r)
          obtain e3 st3 where r: "r = (e3, st3)" by (cases r)
          from Inl r have "process_books af (metadata_cache st2) st2 = Inr st3 \<or>
              process_books af (metadata_cache st2) st2 = Inl (e3, st3)" by simp
          from process_books_dry_fs[OF s2(2) this] s2(1) have "fs st3 = fs st" by simp
          with Inr q True l ok2 Inl r assms(2) show ?thesis unfolding ml by auto
        next
          case pb: (Inr st3)
          from pb have "process_books af (metadata_cache st2) st2 = Inr st3 \<or>
              process_books af (metadata_cache st2) st2 = Inl (e, st3)" by simp
          from process_books_dry_fs[OF s2(2) this] s2(1) have f3: "fs st3 = fs st" by simp
          from print_summary_frame[of st3] obtain st4 where
            ps: "print_summary st3 = Inr st4" "fs st4 = fs st3" by blast
          with Inr q True l ok2 pb f3 assms(2) show ?thesis unfolding ml by auto
        qed
      qed
    qed
  qed
qed

subsection \<open>States that differ in their log\<close>

lemma log_equiv_refl [simp]: "log_equiv s s"
  by (simp add: log_equiv_def)

lemma log_equiv_logmsg [simp]:
  "log_equiv (logmsg l m s) t = log_equiv s t" "log_equiv s (logmsg l m t) = log_equiv s t"
  by (simp_all add: log_equiv_def)

lemma log_equiv_fs_update: "log_equiv s t \<Longrightarrow> log_equiv (s\<lparr>fs := f\<rparr>) (t\<lparr>fs := f\<rparr>)"
  by (simp add: log_equiv_def same_object_def)

lemma log_equiv_counts:
  assumes "log_equiv s t"
  shows "log_equiv (count_total s) (count_total t)" "log_equiv (count_migrated s) (count_migrated t)"
    "log_equiv (count_skipped s) (count_skipped t)" "log_equiv (count_error s) (count_error t)"
  using assms by (simp_all add: log_equiv_def same_object_def)

lemma log_equiv_sym: "log_equiv s t \<Longrightarrow> log_equiv t s"
  by (auto simp: log_equiv_def same_object_def)

lemma log_equiv_trans: "log_equiv s t \<Longrightarrow> log_equiv t u \<Longrightarrow> log_equiv s u"
  by (auto simp: log_equiv_def same_object_def)

lemma log_equiv_get_book_metadata:
  assumes "log_equiv s t"
  shows "get_book_metadata s p = get_book_metadata t p"
proof -
  from assms have "calibre_path s = calibre_path t" "metadata_cache s = metadata_cache t"
    by (simp_all add: log_equiv_def same_object_def)
  then show ?thesis unfolding get_book_metadata_def by (simp add: Let_def split: option.splits)
qed

lemma same_end_simps [simp]:
  "same_end (Inr s) (Inr t) = log_equiv s t"
  "same_end (Inl (e, s)) (Inl (e', t)) = (e = e' \<and> log_equiv s t)"
  "same_end (Inl (e, s)) (Inr t) = False"
  "same_end (Inr s) (Inl (e, t)) = False"
  by (simp_all add: same_end_def)

lemma same_end_refl [simp]: "same_end r r"
  by (cases r) (auto simp: same_end_def)

lemma same_end_sym: "same_end r r' \<Longrightarrow> same_end r' r"
  by (cases r; cases r') (auto simp: same_end_def dest: log_equiv_sym)

lemma same_end_trans: "same_end r r' \<Longrightarrow> same_end r' r'' \<Longrightarrow> same_end r r''"
  by (cases r; cases r'; cases r'') (auto simp: same_end_def dest: log_equiv_trans)

lemma would_create_log_equiv:
  assumes "log_equiv s t"
  shows "same_end (would_create md sp files s) (would_create md sp files t)"
  using assms
proof (induction files arbitrary: s t)
  case Nil
  then show ?case by simp
next
  case (Cons f files)
  show ?case
  proof (cases "get_file_name md (path_name f)")
    case (Inl a)
    with Cons.prems show ?thesis by simp
  next
    case (Inr name)
    have "log_equiv (logmsg INFO (Would_create (joinpath sp name)) s)
        (logmsg INFO (Would_create (joinpath sp name)) t)" using Cons.prems by simp
    from Cons.IH[OF this] Inr show ?thesis by simp
  qed
qed

lemma copy_files_log_equiv:
  assumes "log_equiv s t"
  shows "same_end (copy_files md sp files s) (copy_files md sp files t)"
  using assms
proof (induction files arbitrary: s t)
  case Nil
  then show ?case by simp
next
  case (Cons f files)
  from Cons.prems have fs: "fs s = fs t" by (simp add: log_equiv_def)
  show ?case
  proof (cases "get_file_name md (path_name f)")
    case (Inl a)
    with Cons.prems show ?thesis by simp
  next
    case name: (Inr name)
    let ?d = "joinpath sp name"
    show ?thesis
    proof (cases "path_exists (fs t) ?d")
      case (Inl a)
      with name fs Cons.prems show ?thesis by (simp add: Let_def)
    next
      case ex: (Inr b)
      show ?thesis
      proof (cases b)
        case True
        have "log_equiv (logmsg WARNING (File_already_exists ?d) s) (logmsg WARNING (File_already_exists ?d) t)"
          using Cons.prems by simp
        from Cons.IH[OF this] name ex True fs show ?thesis by (simp add: Let_def)
      next
        case False
        show ?thesis
        proof (cases "copy2 (fs t) f ?d")
          case (Inl a)
          with name ex False fs Cons.prems show ?thesis by (simp add: Let_def)
        next
          case (Inr files')
          have "log_equiv (logmsg DEBUG (Copied f ?d) (s\<lparr>fs := files'\<rparr>))
              (logmsg DEBUG (Copied f ?d) (t\<lparr>fs := files'\<rparr>))"
            using Cons.prems by (simp add: log_equiv_fs_update)
          from Cons.IH[OF this] name ex False fs Inr show ?thesis by (simp add: Let_def)
        qed
      qed
    qed
  qed
qed

lemma migrate_book_log_equiv:
  assumes "log_equiv s t"
  shows "same_end (map_sum id snd (migrate_book p s)) (map_sum id snd (migrate_book p t))"
proof -
  from assms have fs: "fs s = fs t" and kp: "komga_path s = komga_path t" and dr: "dry_run s = dry_run t"
    by (simp_all add: log_equiv_def same_object_def)
  note gm = log_equiv_get_book_metadata[OF assms, of p]
  show ?thesis
  proof (cases "get_book_metadata t p")
    case None
    then show ?thesis using assms gm by (simp add: migrate_book_def log_equiv_counts)
  next
    case (Some md)
    show ?thesis
    proof (cases "find_ebook_files (fs t) p")
      case (Inl e)
      then show ?thesis using assms Some gm fs by (simp add: migrate_book_def)
    next
      case (Inr files)
      show ?thesis
      proof (cases "files = []")
        case True
        then show ?thesis using assms Some gm fs Inr by (simp add: migrate_book_def log_equiv_counts)
      next
        case False
        let ?sp = "joinpath (komga_path t) (get_series_folder_name md)"
        let ?m = "Migrating (m_author md) (m_title md) (series_info md) (get_series_folder_name md)"
        have e1: "log_equiv (logmsg INFO ?m s) (logmsg INFO ?m t)" using assms by simp
        show ?thesis
        proof (cases "dry_run t")
          case True
          have ms: "migrate_book p s =
              (case would_create md ?sp files (logmsg INFO ?m s) of
                 Inl (e, st2) \<Rightarrow> Inl (e, st2) | Inr st2 \<Rightarrow> Inr (True, count_migrated st2))"
            using Some gm fs kp dr Inr False True by (simp add: migrate_book_def Let_def)
          have mt: "migrate_book p t =
              (case would_create md ?sp files (logmsg INFO ?m t) of
                 Inl (e, st2) \<Rightarrow> Inl (e, st2) | Inr st2 \<Rightarrow> Inr (True, count_migrated st2))"
            using Some Inr False True by (simp add: migrate_book_def Let_def)
          from would_create_log_equiv[OF e1, of md ?sp files] show ?thesis
            unfolding ms mt
            by (cases "would_create md ?sp files (logmsg INFO ?m s)";
                cases "would_create md ?sp files (logmsg INFO ?m t)")
               (auto simp: log_equiv_counts)
        next
          case dry: False
          show ?thesis
          proof (cases "mkdir (fs t) ?sp")
            case (Inl q)
            obtain e files' where q: "q = (e, files')" by (cases q)
            have "log_equiv ((logmsg INFO ?m s)\<lparr>fs := files'\<rparr>) ((logmsg INFO ?m t)\<lparr>fs := files'\<rparr>)"
              using e1 by (rule log_equiv_fs_update)
            then show ?thesis
              using Some gm fs kp dr Inr False dry Inl q
              by (simp add: migrate_book_def Let_def log_equiv_counts)
          next
            case mk: (Inr files')
            let ?s1 = "(logmsg INFO ?m s)\<lparr>fs := files'\<rparr>" and ?t1 = "(logmsg INFO ?m t)\<lparr>fs := files'\<rparr>"
            have e2: "log_equiv ?s1 ?t1" using e1 by (rule log_equiv_fs_update)
            have ms: "migrate_book p s =
                (case copy_files md ?sp files ?s1 of
                   Inr st2 \<Rightarrow> Inr (True, count_migrated st2)
                 | Inl (e, st2) \<Rightarrow> Inr (False, count_error (logmsg ERROR (Error_migrating p e) st2)))"
              using Some gm fs kp dr Inr False dry mk by (simp add: migrate_book_def Let_def)
            have mt: "migrate_book p t =
                (case copy_files md ?sp files ?t1 of
                   Inr st2 \<Rightarrow> Inr (True, count_migrated st2)
                 | Inl (e, st2) \<Rightarrow> Inr (False, count_error (logmsg ERROR (Error_migrating p e) st2)))"
              using Some Inr False dry mk by (simp add: migrate_book_def Let_def)
            from copy_files_log_equiv[OF e2, of md ?sp files] show ?thesis
              unfolding ms mt
              by (cases "copy_files md ?sp files ?s1"; cases "copy_files md ?sp files ?t1")
                 (auto simp: log_equiv_counts)
          qed
        qed
      qed
    qed
  qed
qed

text \<open>The steps of the loop, by what the two probes of the book's directory answer.\<close>

lemma probe_cases:
  obtains (exists_raises) e where "path_exists files p = Inl e"
    | (is_dir_raises) e where "path_exists files p = Inr True" "is_dir files p = Inl e"
    | (missing) "path_exists files p = Inr False \<or>
        (path_exists files p = Inr True \<and> is_dir files p = Inr False)"
    | (present) "path_exists files p = Inr True" "is_dir files p = Inr True"
proof (cases "path_exists files p")
  case (Inl e)
  then show ?thesis by (rule exists_raises)
next
  case ex: (Inr b)
  show ?thesis
  proof (cases b)
    case False
    with ex show ?thesis by (intro missing) simp
  next
    case True
    show ?thesis
    proof (cases "is_dir files p")
      case (Inl e)
      with ex True show ?thesis by (intro is_dir_raises) simp_all
    next
      case (Inr d)
      with ex True show ?thesis by (cases d) (auto intro: missing present)
    qed
  qed
qed

lemma process_books_exists_raises:
  assumes "path_exists (fs st) (joinpath (calibre_path st) path_key) = Inl e"
  shows "process_books af ((path_key, md) # rest) st = Inl (e, st)"
  using assms by (simp add: Let_def)

lemma process_books_is_dir_raises:
  assumes "path_exists (fs st) (joinpath (calibre_path st) path_key) = Inr True"
    "is_dir (fs st) (joinpath (calibre_path st) path_key) = Inl e"
  shows "process_books af ((path_key, md) # rest) st = Inl (e, st)"
  using assms by (simp add: Let_def)

lemma process_books_missing:
  assumes "path_exists (fs st) (joinpath (calibre_path st) path_key) = Inr False \<or>
    (path_exists (fs st) (joinpath (calibre_path st) path_key) = Inr True \<and>
     is_dir (fs st) (joinpath (calibre_path st) path_key) = Inr False)"
  shows "process_books af ((path_key, md) # rest) st =
    process_books af rest (logmsg WARNING (Book_path_missing (joinpath (calibre_path st) path_key)) st)"
  using assms by (auto simp: Let_def)

lemma process_books_filtered:
  assumes "path_exists (fs st) (joinpath (calibre_path st) path_key) = Inr True"
    "is_dir (fs st) (joinpath (calibre_path st) path_key) = Inr True" "filtered_out af md"
  shows "process_books af ((path_key, md) # rest) st = process_books af rest st"
  using assms by (simp add: Let_def)

lemma process_books_counted:
  assumes "path_exists (fs st) (joinpath (calibre_path st) path_key) = Inr True"
    "is_dir (fs st) (joinpath (calibre_path st) path_key) = Inr True" "\<not> filtered_out af md"
  shows "process_books af ((path_key, md) # rest) st =
    (case migrate_book (joinpath (calibre_path st) path_key) (count_total st) of
       Inl (e, st') \<Rightarrow> Inl (e, st')
     | Inr (ok, st') \<Rightarrow> process_books af rest st')"
  using assms by (simp add: Let_def)

text \<open>
  The loop does not read the log: from two states that differ at most in their log it
  ends the same way, in states that differ at most in their log.
\<close>

lemma process_books_log_equiv:
  assumes "log_equiv s t"
  shows "same_end (process_books af items s) (process_books af items t)"
  using assms
proof (induction items arbitrary: s t)
  case Nil
  then show ?case by simp
next
  case (Cons item items)
  obtain path_key md where item: "item = (path_key, md)" by (cases item)
  from Cons.prems have fs: "fs s = fs t" and cp: "calibre_path s = calibre_path t"
    by (simp_all add: log_equiv_def same_object_def)
  let ?bp = "joinpath (calibre_path t) path_key"
  show ?case
  proof (cases "fs t" ?bp rule: probe_cases)
    case (exists_raises e)
    from process_books_exists_raises[of t path_key e af md items]
      process_books_exists_raises[of s path_key e af md items] exists_raises fs cp item Cons.prems
    show ?thesis by simp
  next
    case (is_dir_raises e)
    from process_books_is_dir_raises[of t path_key e af md items]
      process_books_is_dir_raises[of s path_key e af md items] is_dir_raises fs cp item Cons.prems
    show ?thesis by simp
  next
    case missing
    let ?w = "logmsg WARNING (Book_path_missing ?bp)"
    have "log_equiv (?w s) (?w t)" using Cons.prems by simp
    from Cons.IH[OF this] process_books_missing[of t path_key af md items]
      process_books_missing[of s path_key af md items] missing fs cp item
    show ?thesis by simp
  next
    case present
    show ?thesis
    proof (cases "filtered_out af md")
      case True
      from Cons.IH[OF Cons.prems] process_books_filtered[of t path_key af md items]
        process_books_filtered[of s path_key af md items] present True fs cp item
      show ?thesis by simp
    next
      case False
      have ps: "process_books af (item # items) s =
          (case migrate_book ?bp (count_total s) of
             Inl (e, st') \<Rightarrow> Inl (e, st') | Inr (ok, st') \<Rightarrow> process_books af items st')"
        using process_books_counted[of s path_key af md items] present False fs cp item by simp
      have pt: "process_books af (item # items) t =
          (case migrate_book ?bp (count_total t) of
             Inl (e, st') \<Rightarrow> Inl (e, st') | Inr (ok, st') \<Rightarrow> process_books af items st')"
        using process_books_counted[of t path_key af md items] present False item by simp
      have "log_equiv (count_total s) (count_total t)" using Cons.prems by (rule log_equiv_counts)
      from migrate_book_log_equiv[OF this, of ?bp] show ?thesis
        unfolding ps pt
        by (cases "migrate_book ?bp (count_total s)"; cases "migrate_book ?bp (count_total t)")
           (auto intro: Cons.IH)
    qed
  qed
qed

subsection \<open>The example library\<close>

lemma example_cache_loaded:
  "metadata_cache (snd (load_calibre_metadata (init [''lib''] [''out''] dry example_fs (Some example_rows))))
     = example_cache"
  by (simp add: load_calibre_metadata_def init_def example_rows_def rows_with_def example_cache_def
      load_row_def truthy_str_def ghost_def dune_def foundation_def Let_def logmsg_def
      strip_ws_def strip_by_def rstrip_by_def is_space_def)

lemma ghost_path: "joinpath [''lib''] ''Nobody/Ghost (99)'' = [''lib'', ''Nobody'', ''Ghost (99)'']"
  by (simp add: joinpath_def path_parts_def)

lemma ghost_missing: "path_exists example_fs [''lib'', ''Nobody'', ''Ghost (99)''] = Inr False"
  by code_simp

lemma example_run:
  "map_sum (\<lambda>(e, s). (e, stats s))
      (\<lambda>s. (stats s, (WARNING, Book_path_missing [''lib'', ''Nobody'', ''Ghost (99)'']) \<in> set (logged s)))
      (migrate_library None (init [''lib''] [''out''] False example_fs (Some example_rows)))
    = Inr (\<lparr>total_books = 2, migrated_books = 2, skipped_books = 0, errors = 0\<rparr>, True)"
  by code_simp

lemma example_run_infinite:
  "map_sum (\<lambda>(e, s). (e, stats s)) stats
      (migrate_library None (init [''lib''] [''out''] True example_fs (Some (rows_with PosInf))))
    = Inl (OverflowError, \<lparr>total_books = 2, migrated_books = 1, skipped_books = 0, errors = 0\<rparr>)"
  by code_simp

lemma example_run_infinite_real:
  "map_sum (\<lambda>(e, s). (e, stats s)) stats
      (migrate_library None (init [''lib''] [''out''] False example_fs (Some (rows_with PosInf))))
    = Inr \<lparr>total_books = 2, migrated_books = 1, skipped_books = 0, errors = 1\<rparr>"
  by code_simp

lemma example_run_locked:
  "map_sum (\<lambda>(e, s). (e, stats s)) stats
      (migrate_library None (init [''lib''] [''out''] False example_fs_locked (Some example_rows)))
    = Inl (PermissionError, \<lparr>total_books = 1, migrated_books = 0, skipped_books = 0, errors = 0\<rparr>)"
  by code_simp

lemma example_run_filter:
  "map_sum (\<lambda>(e, s). (e, stats s)) stats
      (migrate_library (Some ''asimov'') (init [''lib''] [''out''] False example_fs (Some example_rows)))
    = Inr \<lparr>total_books = 1, migrated_books = 1, skipped_books = 0, errors = 0\<rparr>"
  by code_simp

lemma example_rerun_dry:
  "map_sum (\<lambda>(e, s). e) (\<lambda>s. (would_create_paths (logged s), fs s = example_fs_rerun))
      (migrate_library None (init [''lib''] [''out''] True example_fs_rerun (Some example_rows)))
    = Inr ([[''out'', ''Frank Herbert'', ''Dune.epub''],
            [''out'', ''Isaac Asimov - Foundation'', ''Volume 07 - Foundation.epub'']], True)"
  by code_simp

lemma example_rerun_real:
  "map_sum (\<lambda>(e, s). e)
      (\<lambda>s. (copied_paths (logged s), already_exists_paths (logged s),
            filter (\<lambda>p. p \<notin> set (map fst example_fs_rerun)) (map fst (fs s)),
            node_at (fs s) [''out'', ''Frank Herbert'', ''Dune.epub'']))
      (migrate_library None (init [''lib''] [''out''] False example_fs_rerun (Some example_rows)))
    = Inr ([[''out'', ''Isaac Asimov - Foundation'', ''Volume 07 - Foundation.epub'']],
           [[''out'', ''Frank Herbert'', ''Dune.epub'']],
           [[''out'', ''Isaac Asimov - Foundation''],
            [''out'', ''Isaac Asimov - Foundation'', ''Volume 07 - Foundation.epub'']],
           Some (File ''old''))"
  by code_simp

subsection \<open>Books without a directory\<close>

text \<open>
  Claim C6, as the code has it. When \<open>exists()\<close> answers \<open>False\<close> for the directory of a
  book of the catalog, or \<open>exists()\<close> answers \<open>True\<close> and \<open>is_dir()\<close> answers \<open>False\<close>,
  the loop logs one warning and goes on with the next book from a state that differs
  from the one before in this log record only: no counter has changed, the skipped
  counter and the total included, and the file system is as before. The run then ends
  the same way (by return, or by the same exception of a later book) as the run over
  the catalog without this book, with the same counters and the same file system.
\<close>

theorem missing_book_passed_over:
  assumes "path_exists (fs st) (joinpath (calibre_path st) path_key) = Inr False \<or>
    (path_exists (fs st) (joinpath (calibre_path st) path_key) = Inr True \<and>
     is_dir (fs st) (joinpath (calibre_path st) path_key) = Inr False)"
  shows "process_books af ((path_key, md) # rest) st =
      process_books af rest
        (logmsg WARNING (Book_path_missing (joinpath (calibre_path st) path_key)) st) \<and>
    stats (logmsg WARNING (Book_path_missing (joinpath (calibre_path st) path_key)) st) = stats st \<and>
    fs (logmsg WARNING (Book_path_missing (joinpath (calibre_path st) path_key)) st) = fs st \<and>
    logged (logmsg WARNING (Book_path_missing (joinpath (calibre_path st) path_key)) st) =
      logged st @ [(WARNING, Book_path_missing (joinpath (calibre_path st) path_key))] \<and>
    same_end (process_books af ((path_key, md) # rest) st) (process_books af rest st)"
proof -
  let ?w = "logmsg WARNING (Book_path_missing (joinpath (calibre_path st) path_key)) st"
  have p: "process_books af ((path_key, md) # rest) st = process_books af rest ?w"
    using assms by (rule process_books_missing)
  have "log_equiv ?w st" by simp
  then have "same_end (process_books af rest ?w) (process_books af rest st)"
    by (rule process_books_log_equiv)
  with p show ?thesis by simp
qed

text \<open>
  C6 in the example library: the book without author has no directory. The loop over the
  catalog goes on with the two other books, and ends as the loop over these two alone.
\<close>

theorem missing_book_passed_over_witness:
  "path_exists (fs (example_state False)) (joinpath (calibre_path (example_state False)) ''Nobody/Ghost (99)'')
     = Inr False \<and>
   process_books None example_cache (example_state False) =
     process_books None (tl example_cache)
       (logmsg WARNING (Book_path_missing [''lib'', ''Nobody'', ''Ghost (99)'']) (example_state False)) \<and>
   same_end (process_books None example_cache (example_state False))
     (process_books None (tl example_cache) (example_state False))"
proof -
  have c: "calibre_path (example_state False) = [''lib'']" "fs (example_state False) = example_fs"
    by (simp_all add: example_state_def init_def)
  have h: "path_exists (fs (example_state False))
      (joinpath (calibre_path (example_state False)) ''Nobody/Ghost (99)'') = Inr False"
    unfolding c ghost_path by (rule ghost_missing)
  then have h': "path_exists (fs (example_state False))
      (joinpath (calibre_path (example_state False)) ''Nobody/Ghost (99)'') = Inr False \<or>
    (path_exists (fs (example_state False))
      (joinpath (calibre_path (example_state False)) ''Nobody/Ghost (99)'') = Inr True \<and>
     is_dir (fs (example_state False))
      (joinpath (calibre_path (example_state False)) ''Nobody/Ghost (99)'') = Inr False)" by (rule disjI1)
  have e: "example_cache = (''Nobody/Ghost (99)'', ghost) # tl example_cache"
    by (simp add: example_cache_def)
  note T = missing_book_passed_over[OF h', of None ghost "tl example_cache"]
  from conjunct1[OF T] have a: "process_books None example_cache (example_state False) =
     process_books None (tl example_cache)
       (logmsg WARNING (Book_path_missing [''lib'', ''Nobody'', ''Ghost (99)'']) (example_state False))"
    unfolding c ghost_path e[symmetric] .
  from conjunct2[OF conjunct2[OF conjunct2[OF conjunct2[OF T]]]]
  have b: "same_end (process_books None example_cache (example_state False))
     (process_books None (tl example_cache) (example_state False))"
    unfolding e[symmetric] .
  from h a b show ?thesis by (intro conjI)
qed

text \<open>
  Claim C6 as stated fails: in the run over the example library the directory of the
  book without author is missing and the warning is logged, but the book is not counted:
  the run ends with no skipped book and with two books in total, of three in the catalog.
\<close>

theorem missing_book_counterexample:
  "length example_rows = 3 \<and>
   path_exists example_fs (joinpath [''lib''] ''Nobody/Ghost (99)'') = Inr False \<and>
   (\<exists>st'. migrate_library None (init [''lib''] [''out''] False example_fs (Some example_rows)) = Inr st' \<and>
      (WARNING, Book_path_missing [''lib'', ''Nobody'', ''Ghost (99)'']) \<in> set (logged st') \<and>
      skipped_books (stats st') = 0 \<and> total_books (stats st') = 2)"
proof -
  have "length example_rows = 3" by (simp add: example_rows_def rows_with_def)
  moreover have "path_exists example_fs (joinpath [''lib''] ''Nobody/Ghost (99)'') = Inr False"
    unfolding ghost_path by (rule ghost_missing)
  moreover from example_run
  have "\<exists>st'. migrate_library None (init [''lib''] [''out''] False example_fs (Some example_rows)) = Inr st' \<and>
      (WARNING, Book_path_missing [''lib'', ''Nobody'', ''Ghost (99)'']) \<in> set (logged st') \<and>
      skipped_books (stats st') = 0 \<and> total_books (stats st') = 2"
    by (cases "migrate_library None (init [''lib''] [''out''] False example_fs (Some example_rows))") auto
  ultimately show ?thesis by (intro conjI)
qed

subsection \<open>The counters at the end of a run\<close>

text \<open>
  Claim C10 at two runs that an exception ends after a book was counted. In a dry run
  over the example library, with an infinite series index in the row of the book of the
  series, \<open>get_file_name\<close> raises \<open>OverflowError\<close> in the loop of the dry run, which no
  \<open>try\<close> block guards: the exception leaves \<open>migrate_library\<close> with two books counted
  and one outcome. In a run over the library with a locked book directory, listing the
  directory raises \<open>PermissionError\<close> in \<open>find_ebook_files\<close>, outside the \<open>try\<close> block:
  one book is counted, with no outcome. The counters are no partition at the end of
  either run.
\<close>

theorem counters_partition_broken:
  "(\<exists>st'. migrate_library None (init [''lib''] [''out''] True example_fs (Some (rows_with PosInf)))
        = Inl (OverflowError, st') \<and>
      stats st' = \<lparr>total_books = 2, migrated_books = 1, skipped_books = 0, errors = 0\<rparr> \<and>
      \<not> counters_partition (stats st')) \<and>
   (\<exists>st'. migrate_library None (init [''lib''] [''out''] False example_fs_locked (Some example_rows))
        = Inl (PermissionError, st') \<and>
      stats st' = \<lparr>total_books = 1, migrated_books = 0, skipped_books = 0, errors = 0\<rparr> \<and>
      \<not> counters_partition (stats st'))"
proof -
  from example_run_infinite
  have a: "\<exists>st'. migrate_library None (init [''lib''] [''out''] True example_fs (Some (rows_with PosInf)))
        = Inl (OverflowError, st') \<and>
      stats st' = \<lparr>total_books = 2, migrated_books = 1, skipped_books = 0, errors = 0\<rparr> \<and>
      \<not> counters_partition (stats st')"
    by (cases "migrate_library None (init [''lib''] [''out''] True example_fs (Some (rows_with PosInf)))")
       (auto simp: counters_partition_def)
  from example_run_locked
  have b: "\<exists>st'. migrate_library None (init [''lib''] [''out''] False example_fs_locked (Some example_rows))
        = Inl (PermissionError, st') \<and>
      stats st' = \<lparr>total_books = 1, migrated_books = 0, skipped_books = 0, errors = 0\<rparr> \<and>
      \<not> counters_partition (stats st')"
    by (cases "migrate_library None (init [''lib''] [''out''] False example_fs_locked (Some example_rows))")
       (auto simp: counters_partition_def)
  from a b show ?thesis by (rule conjI)
qed

text \<open>
  The sibling path: in the run that is no dry run the same infinite index is caught by
  the \<open>try\<close> block and counted as an error, and the counters form a partition.
\<close>

lemma infinite_index_counted_as_error:
  "\<exists>st'. migrate_library None (init [''lib''] [''out''] False example_fs (Some (rows_with PosInf))) = Inr st' \<and>
      stats st' = \<lparr>total_books = 2, migrated_books = 1, skipped_books = 0, errors = 1\<rparr> \<and>
      counters_partition (stats st')"
  using example_run_infinite_real
  by (cases "migrate_library None (init [''lib''] [''out''] False example_fs (Some (rows_with PosInf)))")
     (auto simp: counters_partition_def)

subsection \<open>The author filter\<close>

lemma filtered_out_None [simp]: "\<not> filtered_out None md"
  by (simp add: filtered_out_def author_test_def)

lemma passes_filter_pair [simp]: "passes_filter af (k, md) = (\<not> filtered_out af md)"
  by (simp add: passes_filter_def)

text \<open>
  A book that the filter rejects leaves no trace: the loop goes on from the same state.
  A book that passes is counted and handed to \<open>migrate_book\<close>.
\<close>

lemma filtered_book_passed_over:
  assumes "path_exists (fs st) (joinpath (calibre_path st) path_key) = Inr True"
    "is_dir (fs st) (joinpath (calibre_path st) path_key) = Inr True"
    "author_filter = Some f" "f \<noteq> []" "\<not> str_contains (lower f) (lower (m_author md))"
  shows "process_books author_filter ((path_key, md) # rest) st = process_books author_filter rest st"
  using assms by (intro process_books_filtered) (simp_all add: filtered_out_def author_test_def)

lemma matching_book_processed:
  assumes "path_exists (fs st) (joinpath (calibre_path st) path_key) = Inr True"
    "is_dir (fs st) (joinpath (calibre_path st) path_key) = Inr True"
    "author_filter = Some f" "str_contains (lower f) (lower (m_author md))"
  shows "process_books author_filter ((path_key, md) # rest) st =
    (case migrate_book (joinpath (calibre_path st) path_key) (count_total st) of
       Inl (e, st') \<Rightarrow> Inl (e, st')
     | Inr (ok, st') \<Rightarrow> process_books author_filter rest st')"
  using assms by (intro process_books_counted) (simp_all add: filtered_out_def author_test_def)

text \<open>The example of the spec: two books by different authors, and a filter for one of them.\<close>

lemma author_filter_example:
  "\<exists>st'. migrate_library (Some ''asimov'') (init [''lib''] [''out''] False example_fs (Some example_rows)) = Inr st' \<and>
      stats st' = \<lparr>total_books = 1, migrated_books = 1, skipped_books = 0, errors = 0\<rparr>"
  using example_run_filter
  by (cases "migrate_library (Some ''asimov'') (init [''lib''] [''out''] False example_fs (Some example_rows))")
     auto

text \<open>On the code points below 256 the two models of \<open>str.lower()\<close> agree.\<close>

lemma lower_cp_of_char: "lower_cp (of_char c) = of_char (lower_char c)"
proof -
  have "(of_char c :: nat) < 256" by simp
  then have "\<not> 913 \<le> (of_char c :: nat)" by linarith
  then have "\<not> greek_capital (of_char c)" by (simp add: greek_capital_def)
  then show ?thesis
    by (auto simp: lower_cp_def lower_char_def Let_def)
qed

lemma lower_from_of_char: "lower_from before (map of_char s) = map of_char (lower s)"
proof (induction s arbitrary: before)
  case Nil
  then show ?case by (simp add: lower_def)
next
  case (Cons c s)
  have "(of_char c :: nat) < 256" by simp
  then have "(of_char c :: nat) \<noteq> 931" by linarith
  then show ?case using Cons.IH[of "of_char c # before"] by (simp add: lower_def lower_cp_of_char)
qed

lemma ulower_of_char: "ulower (map of_char s) = map of_char (lower s)"
  by (simp add: ulower_def lower_from_of_char)

text \<open>
  Claim C8 at an author name that contains the filter as it is written. The filter is
  the capital sigma, the author name is capital alpha and capital sigma. \<open>str.lower()\<close>
  makes the small sigma of the filter and the final small sigma of the last letter of
  the name, so the lowercase filter does not occur in the lowercase name and the test
  of the loop rejects the book. The same happens to the first four letters of a name in
  capitals as the filter (\<open>0x39F 0x394 0x3A5 0x3A3\<close>, the start of the first name of
  Odysseas Elytis).
\<close>

theorem author_filter_final_sigma:
  "str_contains [931 :: nat] [913, 931] \<and>
   ulower [931] = [963] \<and> ulower [913, 931] = [945, 962] \<and>
   author_test ulower (Some [931]) [913, 931] \<and>
   prefix [927 :: nat, 916, 933, 931]
     [927, 916, 933, 931, 931, 917, 913, 931, 32, 917, 923, 933, 932, 919, 931] \<and>
   author_test ulower (Some [927, 916, 933, 931])
     [927, 916, 933, 931, 931, 917, 913, 931, 32, 917, 923, 933, 932, 919, 931]"
  by (simp add: ulower_def author_test_def final_sigma_def cased_def case_ignorable_def
      lower_cp_def greek_capital_def greek_small_def)

section \<open>Properties of the dry run\<close>

text \<open>
  Claim C7 at a library that was migrated before. The dry run leaves the file system as
  it is and logs two paths as those it would create: the file of the book by Frank
  Herbert, which the destination already has, and the file of the book of the series.
  The run that is no dry run on the same input skips the first with the warning that
  the file already exists and leaves its content as it was; what it creates is the
  folder of the series and the second file. The branch of the dry run, under the comment
  \<open>Show what files would be created\<close>, does not make the test \<open>dest_file.exists()\<close>
  that the other branch makes.
\<close>

theorem dry_run_logs_existing_destination:
  "(\<exists>d. migrate_library None (init [''lib''] [''out''] True example_fs_rerun (Some example_rows)) = Inr d \<and>
      fs d = example_fs_rerun \<and>
      would_create_paths (logged d) =
        [[''out'', ''Frank Herbert'', ''Dune.epub''],
         [''out'', ''Isaac Asimov - Foundation'', ''Volume 07 - Foundation.epub'']]) \<and>
   (\<exists>r. migrate_library None (init [''lib''] [''out''] False example_fs_rerun (Some example_rows)) = Inr r \<and>
      copied_paths (logged r) =
        [[''out'', ''Isaac Asimov - Foundation'', ''Volume 07 - Foundation.epub'']] \<and>
      already_exists_paths (logged r) = [[''out'', ''Frank Herbert'', ''Dune.epub'']] \<and>
      filter (\<lambda>p. p \<notin> set (map fst example_fs_rerun)) (map fst (fs r)) =
        [[''out'', ''Isaac Asimov - Foundation''],
         [''out'', ''Isaac Asimov - Foundation'', ''Volume 07 - Foundation.epub'']] \<and>
      node_at (fs r) [''out'', ''Frank Herbert'', ''Dune.epub''] = Some (File ''old''))"
proof -
  from example_rerun_dry
  have a: "\<exists>d. migrate_library None (init [''lib''] [''out''] True example_fs_rerun (Some example_rows)) = Inr d \<and>
      fs d = example_fs_rerun \<and>
      would_create_paths (logged d) =
        [[''out'', ''Frank Herbert'', ''Dune.epub''],
         [''out'', ''Isaac Asimov - Foundation'', ''Volume 07 - Foundation.epub'']]"
    by (cases "migrate_library None (init [''lib''] [''out''] True example_fs_rerun (Some example_rows))")
       auto
  from example_rerun_real
  have b: "\<exists>r. migrate_library None (init [''lib''] [''out''] False example_fs_rerun (Some example_rows)) = Inr r \<and>
      copied_paths (logged r) =
        [[''out'', ''Isaac Asimov - Foundation'', ''Volume 07 - Foundation.epub'']] \<and>
      already_exists_paths (logged r) = [[''out'', ''Frank Herbert'', ''Dune.epub'']] \<and>
      filter (\<lambda>p. p \<notin> set (map fst example_fs_rerun)) (map fst (fs r)) =
        [[''out'', ''Isaac Asimov - Foundation''],
         [''out'', ''Isaac Asimov - Foundation'', ''Volume 07 - Foundation.epub'']] \<and>
      node_at (fs r) [''out'', ''Frank Herbert'', ''Dune.epub''] = Some (File ''old'')"
    by (cases "migrate_library None (init [''lib''] [''out''] False example_fs_rerun (Some example_rows))")
       auto
  from a b show ?thesis by (rule conjI)
qed


end
